theory Spec2Isabelle
  imports Main "HOL-Library.Char_ord" "HOL-Library.List_Lexorder"
begin

section \<open>Geometry values\<close>

text \<open>
  The models of \<^verbatim>\<open>redistricting/models.py\<close> hold GEOS geometries. A geometry is
  modelled by its structure and its spatial reference id. The set operations, the
  predicates and the spatial queries of the geometry engine and of the database are not
  part of the repository: they are fields of the record \<open>engine\<close> further down.

  Each member of a collection is read with the spatial reference of the collection.
\<close>

datatype geos =
    Point "(int \<times> int) option"
  | LineString "(int \<times> int) list"
  | Polygon "(int \<times> int) list list"
  | MultiPoint "geos list"
  | MultiLineString "geos list"
  | MultiPolygon "geos list"
  | GeometryCollection "geos list"

record geometry =
  shape :: geos
  srid :: "int option"

text \<open>\<^verbatim>\<open>geom.geom_type\<close>: the name of the geometry's type, a string.\<close>

fun geos_type :: "geos \<Rightarrow> string" where
  "geos_type (Point _) = ''Point''"
| "geos_type (LineString _) = ''LineString''"
| "geos_type (Polygon _) = ''Polygon''"
| "geos_type (MultiPoint _) = ''MultiPoint''"
| "geos_type (MultiLineString _) = ''MultiLineString''"
| "geos_type (MultiPolygon _) = ''MultiPolygon''"
| "geos_type (GeometryCollection _) = ''GeometryCollection''"

definition geom_type :: "geometry \<Rightarrow> string" where
  "geom_type g = geos_type (shape g)"

text \<open>
  \<^verbatim>\<open>len(geom)\<close>, which decides the truth value of a geometry in \<^verbatim>\<open>if geom:\<close>: the
  dimension of a point (0 when it is empty), the number of points of a line, the number
  of interior rings of a polygon plus one, the number of members of a collection.
\<close>

fun geos_len :: "geos \<Rightarrow> nat" where
  "geos_len (Point None) = 0"
| "geos_len (Point (Some _)) = 2"
| "geos_len (LineString ps) = length ps"
| "geos_len (Polygon rings) = (length rings - 1) + 1"
| "geos_len (MultiPoint gs) = length gs"
| "geos_len (MultiLineString gs) = length gs"
| "geos_len (MultiPolygon gs) = length gs"
| "geos_len (GeometryCollection gs) = length gs"

definition truthy :: "geometry \<Rightarrow> bool" where
  "truthy g = (geos_len (shape g) \<noteq> 0)"

text \<open>The truth value of a variable that holds a geometry or \<^verbatim>\<open>None\<close>.\<close>

definition truthy_opt :: "geometry option \<Rightarrow> bool" where
  "truthy_opt geom = (case geom of None \<Rightarrow> False | Some g \<Rightarrow> truthy g)"

text \<open>\<^verbatim>\<open>geom.empty\<close>: the geometry has no point.\<close>

fun geos_empty :: "geos \<Rightarrow> bool" where
  "geos_empty (Point p) = (p = None)"
| "geos_empty (LineString ps) = (ps = [])"
| "geos_empty (Polygon rings) = (rings = [])"
| "geos_empty (MultiPoint gs) = list_all geos_empty gs"
| "geos_empty (MultiLineString gs) = list_all geos_empty gs"
| "geos_empty (MultiPolygon gs) = list_all geos_empty gs"
| "geos_empty (GeometryCollection gs) = list_all geos_empty gs"

definition empty :: "geometry \<Rightarrow> bool" where
  "empty g = geos_empty (shape g)"

text \<open>
  \<^verbatim>\<open>empty_geom(srid)\<close>: the intersection of the points (0 0) and (1 1), which is the
  empty geometry collection, tagged with the given spatial reference.
\<close>

definition empty_geom :: "int option \<Rightarrow> geometry" where
  "empty_geom s = \<lparr>shape = GeometryCollection [], srid = s\<rparr>"

text \<open>\<^verbatim>\<open>MultiPolygon(geom)\<close>: a new collection of the one polygon, built without a srid.\<close>

definition MultiPolygon_of :: "geometry \<Rightarrow> geometry" where
  "MultiPolygon_of g = \<lparr>shape = MultiPolygon [shape g], srid = None\<rparr>"

text \<open>
  \<^verbatim>\<open>enforce_multi(geom)\<close>. The outer test is the truth value of the argument: \<^verbatim>\<open>None\<close>
  and a geometry of length 0 take the last branch and are returned as they are.
\<close>

definition enforce_multi :: "geometry option \<Rightarrow> geometry option" where
  "enforce_multi geom =
     (case geom of
        None \<Rightarrow> None
      | Some g \<Rightarrow>
          if truthy g then
            (if geom_type g = ''MultiPolygon'' then Some g
             else if geom_type g = ''Polygon'' then Some (MultiPolygon_of g)
             else Some (empty_geom (srid g)))
          else Some g)"

section \<open>Errors and results\<close>

text \<open>
  The exceptions the modelled code can raise. A call of a method on \<^verbatim>\<open>None\<close>, or of a
  geometry method with the argument \<^verbatim>\<open>None\<close>, raises \<open>AttributeError\<close>; an operation of
  the geometry engine that fails raises \<open>GEOSException\<close>; the read of a name that was
  never bound raises \<open>UnboundLocalError\<close> (a local variable) or \<open>NameError\<close> (a global
  one); a foreign key with no row raises \<open>DoesNotExist\<close>; a row without its foreign key
  cannot be stored: \<open>IntegrityError\<close>. Failures of the storage itself are not modelled.
\<close>

datatype error =
    GEOSException
  | ValidationError
  | NameError
  | UnboundLocalError
  | AttributeError
  | DoesNotExist
  | IntegrityError

text \<open>Sequencing for code that may raise and does not write.\<close>

definition on_success :: "error + 'a \<Rightarrow> ('a \<Rightarrow> error + 'b) \<Rightarrow> error + 'b" where
  "on_success r f = (case r of Inl e \<Rightarrow> Inl e | Inr x \<Rightarrow> f x)"

section \<open>The tables\<close>

text \<open>
  The fields of the Django models, under their own names. A primary key \<open>id\<close> is
  \<open>None\<close> on an instance that was not saved yet; a foreign key holds the primary key of
  the row it points to. \<open>district_id\<close> is a \<^verbatim>\<open>PositiveIntegerField\<close>; the value 0 also
  stands for an unset \<^verbatim>\<open>district_id\<close> (\<^verbatim>\<open>None\<close>), which the code tells apart from a
  set one by \<^verbatim>\<open>not district.district_id\<close> only. A \<^verbatim>\<open>DecimalField\<close> with four decimal
  places is an integer number of ten-thousandths. Time stamps are natural numbers.
  A \<^verbatim>\<open>Geounit\<close> has the two fields the search fills in.
\<close>

record geounit =
  id :: nat
  geom :: geometry

record characteristic =
  subject :: nat
  geounit :: nat
  number :: int

record computedcharacteristic =
  id :: "nat option"
  subject :: nat
  district :: "nat option"
  number :: int
  percentage :: "int option"

record plan =
  id :: "nat option"
  name :: string
  is_template :: bool
  is_shared :: bool
  version :: nat
  created :: nat
  edited :: nat
  owner :: nat

record district =
  id :: "nat option"
  district_id :: nat
  name :: string
  plan :: "nat option"
  geom :: "geometry option"
  simple :: "geometry option"
  version :: nat

text \<open>
  The database: the rows of each table in storage order. \<open>subjects\<close> holds the primary
  keys of \<^verbatim>\<open>Subject.objects.all()\<close>.
\<close>

record db =
  subjects :: "nat list"
  characteristics :: "characteristic list"
  plans :: "plan list"
  districts :: "district list"
  computedcharacteristics :: "computedcharacteristic list"

text \<open>An operation that reads and writes the database and may raise.\<close>

type_synonym 'a action = "db \<Rightarrow> (error + 'a) \<times> db"

definition and_then :: "'a action \<Rightarrow> ('a \<Rightarrow> 'b action) \<Rightarrow> 'b action" where
  "and_then m f s = (case m s of (Inl e, s') \<Rightarrow> (Inl e, s') | (Inr x, s') \<Rightarrow> f x s')"

text \<open>A new primary key: one more than the largest key in use.\<close>

definition fresh_id :: "nat option list \<Rightarrow> nat" where
  "fresh_id used = Suc (fold max (map (\<lambda>k. case k of None \<Rightarrow> 0 | Some i \<Rightarrow> i) used) 0)"

text \<open>\<^verbatim>\<open>aggregate(Max(...))\<close>: \<open>None\<close> when there is no row.\<close>

definition max_of :: "nat list \<Rightarrow> nat option" where
  "max_of xs = (case xs of [] \<Rightarrow> None | x # ys \<Rightarrow> Some (fold max ys x))"

section \<open>The geometry engine, the spatial queries and the settings\<close>

text \<open>
  The \<^verbatim>\<open>WHERE\<close> clauses \<^verbatim>\<open>get_mixed_geounits\<close> builds: the geounits are chosen by their
  ids or by their level, and by one spatial test against a geometry.
\<close>

datatype spatial_test =
    st_within geometry
  | st_intersects_center geometry
  | not_st_intersects geometry
  | not_st_intersects_center geometry

datatype query =
    id_in "nat list" spatial_test
  | geolevel_is int spatial_test

text \<open>
  What the repository takes from outside: the settings, the clock, the ids of
  \<^verbatim>\<open>Geolevel.objects.all()\<close> in the order of the query, the union of the geounits of a
  list of ids (\<open>None\<close> when no geounit has one of the ids), the operations and
  predicates of the geometry engine (\<open>None\<close>: the engine raises \<^verbatim>\<open>GEOSException\<close>),
  \<^verbatim>\<open>simplify\<close> with the tolerance and the flag the code passes, and the rows of a
  spatial query.
\<close>

record engine =
  BASE_GEOLEVEL :: int
  MAX_DISTRICTS :: nat
  now :: nat
  geolevels :: "int list"
  unionagg :: "nat list \<Rightarrow> geometry option"
  union :: "geometry \<Rightarrow> geometry \<Rightarrow> geometry option"
  difference :: "geometry \<Rightarrow> geometry \<Rightarrow> geometry option"
  intersection :: "geometry \<Rightarrow> geometry \<Rightarrow> geometry option"
  overlaps :: "geometry \<Rightarrow> geometry \<Rightarrow> bool option"
  contains :: "geometry \<Rightarrow> geometry \<Rightarrow> bool option"
  simplify :: "geometry \<Rightarrow> geometry"
  fetchall :: "query \<Rightarrow> geounit list"

text \<open>\<^verbatim>\<open>a.op(b)\<close> for a method of the geometry engine, where \<open>a\<close> or \<open>b\<close> may be \<^verbatim>\<open>None\<close>.\<close>

definition call :: "(geometry \<Rightarrow> geometry \<Rightarrow> 'a option) \<Rightarrow> geometry option \<Rightarrow> geometry option \<Rightarrow> error + 'a" where
  "call op a b =
     (case a of
        None \<Rightarrow> Inl AttributeError
      | Some x \<Rightarrow>
          (case b of
             None \<Rightarrow> Inl AttributeError
           | Some y \<Rightarrow> (case op x y of None \<Rightarrow> Inl GEOSException | Some r \<Rightarrow> Inr r)))"

text \<open>\<^verbatim>\<open>a.srid\<close> where \<open>a\<close> may be \<^verbatim>\<open>None\<close>.\<close>

definition srid_of :: "geometry option \<Rightarrow> error + int option" where
  "srid_of a = (case a of None \<Rightarrow> Inl AttributeError | Some x \<Rightarrow> Inr (srid x))"

text \<open>
  \<^verbatim>\<open>try: r = a.op(b) except GEOSException: r = empty_geom(c.srid)\<close>: only the engine's
  exception is caught, and the handler reads \<open>c.srid\<close>.
\<close>

definition recovered :: "error + geometry \<Rightarrow> geometry option \<Rightarrow> error + geometry" where
  "recovered r c =
     (case r of
        Inl GEOSException \<Rightarrow> on_success (srid_of c) (\<lambda>s. Inr (empty_geom s))
      | Inl e \<Rightarrow> Inl e
      | Inr g \<Rightarrow> Inr g)"

section \<open>Plans and districts\<close>

subsection \<open>The districts of a plan at a version\<close>

text \<open>\<^verbatim>\<open>District.sortVer\<close>\<close>

definition sortVer :: "district \<Rightarrow> nat" where
  "sortVer d = district_id d * 10000 + version d"

text \<open>
  The dictionary \<^verbatim>\<open>dvers\<close> is an association list: an assignment to a key that is
  present replaces its value, an assignment to a new key adds an entry.
\<close>

fun dict_set :: "'k \<Rightarrow> 'v \<Rightarrow> ('k \<times> 'v) list \<Rightarrow> ('k \<times> 'v) list" where
  "dict_set k v [] = [(k, v)]"
| "dict_set k v (p # ps) = (if fst p = k then (k, v) # ps else p # dict_set k v ps)"

text \<open>The loop over the sorted districts of \<^verbatim>\<open>get_districts_at_version\<close>.\<close>

fun collect_versions :: "int \<Rightarrow> district list \<Rightarrow> (nat \<times> district) list \<Rightarrow> (nat \<times> district) list" where
  "collect_versions v [] dvers = dvers"
| "collect_versions v (d # ds) dvers =
     (if int (version d) > v then collect_versions v ds dvers
      else collect_versions v ds (dict_set (district_id d) d dvers))"

text \<open>
  \<^verbatim>\<open>self.district_set.all()\<close>: the districts whose foreign key is the plan, ordered by
  \<open>name\<close> (\<^verbatim>\<open>Meta.ordering = ['name']\<close> of \<open>District\<close>). Names are compared character
  by character. The query leaves the order of rows of equal name open; here they come
  in the order in which they are stored.
\<close>

definition district_set :: "db \<Rightarrow> plan \<Rightarrow> district list" where
  "district_set s self =
     (case plan.id self of
        None \<Rightarrow> []
      | Some i \<Rightarrow> sort_key name (filter (\<lambda>d. plan d = Some i) (districts s)))"

text \<open>
  \<^verbatim>\<open>get_districts_at_version\<close>, first on the rows of the query, then on the database.
  \<^verbatim>\<open>sorted\<close> is stable, as \<open>sort_key\<close> is. The values of the dictionary come out in an
  order the language does not fix; the properties below are about the set of the
  returned districts.
\<close>

definition districts_at_version :: "district list \<Rightarrow> int \<Rightarrow> district list" where
  "districts_at_version rows v = map snd (collect_versions v (sort_key sortVer rows) [])"

definition get_districts_at_version :: "db \<Rightarrow> plan \<Rightarrow> int \<Rightarrow> district list" where
  "get_districts_at_version s self v = districts_at_version (district_set s self) v"

subsection \<open>Saving rows\<close>

text \<open>
  \<^verbatim>\<open>Model.save()\<close> writes a row: an instance without a primary key, or with one that no
  row has, is inserted (with a new key when it has none); otherwise the row of its key
  is replaced. The saved instance is returned, with its key.
\<close>

definition write_plan :: "plan \<Rightarrow> db \<Rightarrow> plan \<times> db" where
  "write_plan p s =
     (if plan.id p \<noteq> None \<and> plan.id p \<in> set (map plan.id (plans s))
      then (p, s\<lparr>plans := map (\<lambda>r. if plan.id r = plan.id p then p else r) (plans s)\<rparr>)
      else (let p' = (if plan.id p = None
                      then p\<lparr>plan.id := Some (fresh_id (map plan.id (plans s)))\<rparr> else p)
            in (p', s\<lparr>plans := plans s @ [p']\<rparr>)))"

definition write_district :: "district \<Rightarrow> db \<Rightarrow> district \<times> db" where
  "write_district d s =
     (if district.id d \<noteq> None \<and> district.id d \<in> set (map district.id (districts s))
      then (d, s\<lparr>districts := map (\<lambda>r. if district.id r = district.id d then d else r) (districts s)\<rparr>)
      else (let d' = (if district.id d = None
                      then d\<lparr>district.id := Some (fresh_id (map district.id (districts s)))\<rparr> else d)
            in (d', s\<lparr>districts := districts s @ [d']\<rparr>)))"

text \<open>
  \<^verbatim>\<open>ComputedCharacteristic.save()\<close>; no signal is connected to this model. The foreign
  key to the district must be set.
\<close>

definition save_computed :: "computedcharacteristic \<Rightarrow> computedcharacteristic action" where
  "save_computed c s =
     (if district c = None then (Inl IntegrityError, s)
      else if computedcharacteristic.id c \<noteq> None
              \<and> computedcharacteristic.id c \<in> set (map computedcharacteristic.id (computedcharacteristics s))
      then (Inr c, s\<lparr>computedcharacteristics :=
              map (\<lambda>r. if computedcharacteristic.id r = computedcharacteristic.id c then c else r)
                (computedcharacteristics s)\<rparr>)
      else (let c' = (if computedcharacteristic.id c = None
                      then c\<lparr>computedcharacteristic.id :=
                             Some (fresh_id (map computedcharacteristic.id (computedcharacteristics s)))\<rparr>
                      else c)
            in (Inr c', s\<lparr>computedcharacteristics := computedcharacteristics s @ [c']\<rparr>)))"

text \<open>
  \<^verbatim>\<open>District(name=..., plan=...)\<close>: an instance built without the other fields has
  their defaults, \<open>district_id\<close> 1 and \<open>version\<close> 0, no geometry, and no primary key
  before it is saved.
\<close>

definition new_district :: "string \<Rightarrow> nat option \<Rightarrow> district" where
  "new_district nm p = \<lparr>district.id = None, district_id = 1, name = nm, plan = p,
     geom = None, simple = None, version = 0\<rparr>"

text \<open>
  \<^verbatim>\<open>set_district_id\<close>, the \<^verbatim>\<open>pre_save\<close> handler of \<open>District\<close>: it returns the instance,
  which it may have given a \<open>district_id\<close>, or raises.
\<close>

definition set_district_id :: "engine \<Rightarrow> db \<Rightarrow> district \<Rightarrow> error + district" where
  "set_district_id eng s d =
     (if district_id d = 0 then
        (let max_id = max_of (map district_id (filter (\<lambda>r. plan r = plan d) (districts s)));
             d' = d\<lparr>district_id :=
                      (case max_id of
                         None \<Rightarrow> 1
                       | Some m \<Rightarrow> if m \<noteq> 0 then m + 1 else 1)\<rparr>
         in if district_id d' > MAX_DISTRICTS eng + 1 then Inl ValidationError else Inr d')
      else Inr d)"

text \<open>
  \<^verbatim>\<open>Plan.save()\<close> of a plan that has a row: \<^verbatim>\<open>auto_now\<close> stamps \<open>edited\<close>, the row is
  written, and the \<^verbatim>\<open>post_save\<close> handler \<^verbatim>\<open>set_geounit_mapping\<close> does nothing, since
  \<open>created\<close> is false.
\<close>

definition save_plan :: "engine \<Rightarrow> plan \<Rightarrow> plan action" where
  "save_plan eng p s = (case write_plan (p\<lparr>edited := now eng\<rparr>) s of (p', s') \<Rightarrow> (Inr p', s'))"

text \<open>
  \<^verbatim>\<open>update_plan_edited_time\<close>, the \<^verbatim>\<open>post_save\<close> handler of \<open>District\<close>: it reads the plan
  of the district, stamps it and saves it.
\<close>

definition update_plan_edited_time :: "engine \<Rightarrow> district \<Rightarrow> unit action" where
  "update_plan_edited_time eng d s =
     (case filter (\<lambda>p. plan.id p = plan d \<and> plan d \<noteq> None) (plans s) of
        [] \<Rightarrow> (Inl DoesNotExist, s)
      | p # _ \<Rightarrow> and_then (save_plan eng (p\<lparr>edited := now eng\<rparr>)) (\<lambda>_ s'. (Inr (), s')) s)"

text \<open>\<^verbatim>\<open>District.save()\<close> with its two handlers.\<close>

definition save_district :: "engine \<Rightarrow> district \<Rightarrow> district action" where
  "save_district eng d s =
     (case set_district_id eng s d of
        Inl e \<Rightarrow> (Inl e, s)
      | Inr d1 \<Rightarrow>
          (case write_district d1 s of
             (d2, s1) \<Rightarrow> and_then (update_plan_edited_time eng d2) (\<lambda>_ s2. (Inr d2, s2)) s1))"

text \<open>
  \<^verbatim>\<open>set_geounit_mapping\<close>, the \<^verbatim>\<open>post_save\<close> handler of \<open>Plan\<close>. The new district has the
  defaults of the fields the constructor is not given: \<open>district_id\<close> 1, no geometry.
\<close>

definition set_geounit_mapping :: "engine \<Rightarrow> plan \<Rightarrow> bool \<Rightarrow> unit action" where
  "set_geounit_mapping eng p was_created s =
     (if was_created then
        and_then
          (save_district eng
             \<lparr>district.id = None, district_id = 1, name = ''Unassigned'', plan = plan.id p,
              geom = None, simple = None, version = 0\<rparr>)
          (\<lambda>_ s'. (Inr (), s')) s
      else (Inr (), s))"

text \<open>
  The creation of a plan: \<^verbatim>\<open>Plan(name=..., owner=...).save()\<close>. The fields not given
  have their defaults; the row is inserted and the handler runs with \<open>created\<close> true.
\<close>

definition create_plan :: "engine \<Rightarrow> string \<Rightarrow> nat \<Rightarrow> plan action" where
  "create_plan eng nm user s =
     (case write_plan
             \<lparr>plan.id = None, name = nm, is_template = False, is_shared = False,
              version = 0, created = now eng, edited = now eng, owner = user\<rparr> s of
        (p, s1) \<Rightarrow> and_then (set_geounit_mapping eng p True) (\<lambda>_ s2. (Inr p, s2)) s1)"

subsection \<open>The latest version of a district\<close>

text \<open>
  \<^verbatim>\<open>District.is_latest_version\<close>. The last line of the method returns the name
  \<^verbatim>\<open>true\<close>, which nothing binds. Reading \<open>self.plan\<close> fetches the row of the plan.
\<close>

definition is_latest_version :: "db \<Rightarrow> district \<Rightarrow> error + bool" where
  "is_latest_version s self =
     (case plan self of
        None \<Rightarrow> Inl NameError
      | Some i \<Rightarrow>
          (case filter (\<lambda>p. plan.id p = Some i) (plans s) of
             [] \<Rightarrow> Inl DoesNotExist
           | p # _ \<Rightarrow>
               (let qset = filter (\<lambda>d. district_id d = district_id self) (district_set s p);
                    maxver = max_of (map version qset)
                in Inr (Some (version self) = maxver))))"

subsection \<open>Computed characteristics\<close>

text \<open>\<^verbatim>\<open>District.clone_characteristics_from\<close>: the rows of the origin are read once.\<close>

fun clone_rows :: "district \<Rightarrow> computedcharacteristic list \<Rightarrow> unit action" where
  "clone_rows self [] s = (Inr (), s)"
| "clone_rows self (c # cs) s =
     and_then (save_computed (c\<lparr>computedcharacteristic.id := None, district := district.id self\<rparr>))
       (\<lambda>_. clone_rows self cs) s"

definition clone_characteristics_from :: "district \<Rightarrow> district \<Rightarrow> unit action" where
  "clone_characteristics_from self origin s =
     clone_rows self
       (filter (\<lambda>c. district c = district.id origin \<and> district.id origin \<noteq> None)
          (computedcharacteristics s)) s"

text \<open>
  The sum \<^verbatim>\<open>delta_stats\<close> asks the database for: over the characteristics of the subject
  whose geounit is one of the given ones; \<open>None\<close> when there is no such row.
\<close>

definition aggregate :: "db \<Rightarrow> geounit list \<Rightarrow> nat \<Rightarrow> int option" where
  "aggregate s geounits subj =
     (case filter (\<lambda>c. geounit c \<in> set (map geounit.id geounits) \<and> characteristic.subject c = subj)
             (characteristics s) of
        [] \<Rightarrow> None
      | rows \<Rightarrow> Some (sum_list (map characteristic.number rows)))"

text \<open>The body of the loop of \<^verbatim>\<open>delta_stats\<close> for one subject; it returns \<open>changed\<close>.\<close>

definition delta_stats_subject :: "district \<Rightarrow> geounit list \<Rightarrow> bool \<Rightarrow> nat \<Rightarrow> bool \<Rightarrow> bool action" where
  "delta_stats_subject self geounits combine subj changed s =
     (case aggregate s geounits subj of
        None \<Rightarrow> (Inr changed, s)
      | Some a \<Rightarrow>
          if a = 0 then (Inr changed, s)
          else
            (let computed =
                   (case filter (\<lambda>c. subject c = subj \<and> district c = district.id self
                                      \<and> district.id self \<noteq> None) (computedcharacteristics s) of
                      [] \<Rightarrow> \<lparr>computedcharacteristic.id = None, subject = subj,
                             district = district.id self, number = 0, percentage = None\<rparr>
                    | c # _ \<Rightarrow> c)
             in and_then
                  (save_computed
                     (computed\<lparr>number := (if combine then number computed + a else number computed - a)\<rparr>))
                  (\<lambda>_ s'. (Inr True, s')) s))"

fun delta_stats_loop :: "district \<Rightarrow> geounit list \<Rightarrow> bool \<Rightarrow> nat list \<Rightarrow> bool \<Rightarrow> bool action" where
  "delta_stats_loop self geounits combine [] changed s = (Inr changed, s)"
| "delta_stats_loop self geounits combine (subj # rest) changed s =
     and_then (delta_stats_subject self geounits combine subj changed)
       (\<lambda>changed'. delta_stats_loop self geounits combine rest changed') s"

definition delta_stats :: "district \<Rightarrow> geounit list \<Rightarrow> bool \<Rightarrow> bool action" where
  "delta_stats self geounits combine s =
     delta_stats_loop self geounits combine (subjects s) False s"

section \<open>The containment search\<close>

text \<open>
  The members a loop \<^verbatim>\<open>for g in geom\<close> visits when \<open>geom\<close> is a collection; each is
  a geometry with the spatial reference of the collection.
\<close>

fun geos_members :: "geos \<Rightarrow> geos list" where
  "geos_members (MultiPoint gs) = gs"
| "geos_members (MultiLineString gs) = gs"
| "geos_members (MultiPolygon gs) = gs"
| "geos_members (GeometryCollection gs) = gs"
| "geos_members _ = []"

definition members :: "geometry \<Rightarrow> geometry list" where
  "members g = map (\<lambda>m. \<lparr>shape = m, srid = srid g\<rparr>) (geos_members (shape g))"

text \<open>
  The loop that rebuilds the extent of the selected geounits:
  \<^verbatim>\<open>union = selected.geom\<close> for the first, \<^verbatim>\<open>union = union.union(selected.geom)\<close> for
  the others, outside of any \<^verbatim>\<open>try\<close>.
\<close>

fun union_selected :: "engine \<Rightarrow> geounit list \<Rightarrow> geometry option \<Rightarrow> error + geometry option" where
  "union_selected eng [] acc = Inr acc"
| "union_selected eng (selected # rest) acc =
     (case acc of
        None \<Rightarrow> union_selected eng rest (Some (geounit.geom selected))
      | Some u \<Rightarrow>
          on_success (call (union eng) (Some u) (Some (geounit.geom selected)))
            (\<lambda>u'. union_selected eng rest (Some u')))"

text \<open>
  The loop over the members of a remainder that is a geometry collection: the
  multipolygons among \<^verbatim>\<open>enforce_multi(geom)\<close> are gathered into the first of them.
\<close>

fun gather_polygons :: "geometry list \<Rightarrow> geometry option \<Rightarrow> geometry option" where
  "gather_polygons [] acc = acc"
| "gather_polygons (g # gs) acc =
     (case enforce_multi (Some g) of
        None \<Rightarrow> gather_polygons gs acc
      | Some mgeom \<Rightarrow>
          if geom_type mgeom = ''MultiPolygon'' then
            (case acc of
               None \<Rightarrow> gather_polygons gs (Some mgeom)
             | Some u \<Rightarrow>
                 gather_polygons gs
                   (Some (u\<lparr>shape := MultiPolygon (geos_members (shape u) @ geos_members (shape mgeom))\<rparr>)))
          else gather_polygons gs acc)"

text \<open>The remainder after its conversion, as the code does it before the query.\<close>

definition munge_remainder :: "geometry \<Rightarrow> geometry option \<Rightarrow> error + geometry" where
  "munge_remainder remainder boundary =
     (if geom_type remainder = ''GeometryCollection'' \<and> \<not> empty remainder then
        (let s = srid remainder;
             u = gather_polygons (members remainder) None
         in if truthy_opt u then
              (case u of None \<Rightarrow> Inr (empty_geom s) | Some r \<Rightarrow> Inr (r\<lparr>srid := s\<rparr>))
            else Inr (empty_geom s))
      else if empty remainder
              \<or> (geom_type remainder \<noteq> ''MultiPolygon'' \<and> geom_type remainder \<noteq> ''Polygon'') then
        on_success (srid_of boundary) (\<lambda>s. Inr (empty_geom s))
      else Inr remainder)"

text \<open>
  The remainder at a level below the requested one, in the three steps of the code.
  First \<open>intersects\<close>: the union of the selected units and
  \<^verbatim>\<open>selection.difference(union)\<close>, which stand outside of the \<^verbatim>\<open>try\<close> blocks.
\<close>

definition intersects_of :: "engine \<Rightarrow> geometry option \<Rightarrow> geounit list \<Rightarrow> error + geometry option" where
  "intersects_of eng selection units =
     on_success (union_selected eng units None) (\<lambda>u.
       case u of
         None \<Rightarrow> Inr selection
       | Some x \<Rightarrow> on_success (call (difference eng) selection (Some x)) (\<lambda>r. Inr (Some r)))"

text \<open>
  Then the remainder: the intersection, and for an outside search the difference with
  the boundary before it, stand inside a \<^verbatim>\<open>try\<close> whose handler returns
  \<^verbatim>\<open>empty_geom(boundary.srid)\<close>.
\<close>

definition remainder_of :: "engine \<Rightarrow> bool \<Rightarrow> geometry option \<Rightarrow> geometry option \<Rightarrow> geometry option \<Rightarrow> error + geometry" where
  "remainder_of eng inside boundary selection intersects =
     (if inside then recovered (call (intersection eng) boundary intersects) boundary
      else
        recovered
          (on_success (call (difference eng) selection boundary)
             (\<lambda>r. call (intersection eng) (Some r) intersects))
          boundary)"

definition remainder_at :: "engine \<Rightarrow> bool \<Rightarrow> geometry option \<Rightarrow> geometry option \<Rightarrow> geounit list \<Rightarrow> error + geometry" where
  "remainder_at eng inside boundary selection units =
     on_success (intersects_of eng selection units) (\<lambda>intersects.
       on_success (remainder_of eng inside boundary selection intersects) (\<lambda>remainder.
         munge_remainder remainder boundary))"

text \<open>
  The loop over the levels of \<^verbatim>\<open>get_mixed_geounits\<close>, with the variables it carries:
  \<open>boundary\<close>, \<open>selection\<close> and \<open>units\<close>.
\<close>

fun search_levels :: "engine \<Rightarrow> nat list \<Rightarrow> int \<Rightarrow> bool \<Rightarrow> int list \<Rightarrow> geometry option \<Rightarrow> geometry option \<Rightarrow> geounit list \<Rightarrow> error + geounit list" where
  "search_levels eng geounit_ids geolevel inside [] boundary selection units = Inr units"
| "search_levels eng geounit_ids geolevel inside (level # levels) boundary selection units =
     (if geolevel = level then
        (let selection' = unionagg eng geounit_ids in
         on_success
           (if \<not> truthy_opt boundary
            then on_success (srid_of selection') (\<lambda>s. Inr (empty_geom s))
            else (case boundary of None \<Rightarrow> Inl AttributeError | Some b \<Rightarrow> Inr b)) (\<lambda>boundary'.
         (let simple = simplify eng boundary';
              test =
                (if inside then
                   (if level \<noteq> BASE_GEOLEVEL eng then st_within simple
                    else st_intersects_center simple)
                 else
                   (if level \<noteq> BASE_GEOLEVEL eng then not_st_intersects simple
                    else not_st_intersects_center simple));
              units' = units @ fetchall eng (id_in geounit_ids test)
          in if level = BASE_GEOLEVEL eng then Inr units'
             else search_levels eng geounit_ids geolevel inside levels (Some boundary') selection' units')))
      else if geolevel < level then
        on_success (remainder_at eng inside boundary selection units) (\<lambda>remainder.
          (let units' =
                 (if \<not> empty remainder then
                    units @ fetchall eng
                      (geolevel_is level
                         (if level = BASE_GEOLEVEL eng
                          then st_intersects_center (simplify eng remainder)
                          else st_within (simplify eng remainder)))
                  else units)
           in search_levels eng geounit_ids geolevel inside levels boundary selection units'))
      else search_levels eng geounit_ids geolevel inside levels boundary selection units)"

text \<open>\<^verbatim>\<open>Geounit.get_mixed_geounits\<close>\<close>

definition get_mixed_geounits :: "engine \<Rightarrow> nat list \<Rightarrow> int \<Rightarrow> geometry option \<Rightarrow> bool \<Rightarrow> error + geounit list" where
  "get_mixed_geounits eng geounit_ids geolevel boundary inside =
     (if \<not> truthy_opt boundary \<and> inside then Inr []
      else search_levels eng geounit_ids geolevel inside (geolevels eng) boundary None [])"

section \<open>The boundary edit\<close>

text \<open>
  The test of \<^verbatim>\<open>add_geounits\<close> on a district that is not the target:
  \<^verbatim>\<open>district.geom and (district.geom.overlaps(incremental) or
  district.geom.contains(incremental))\<close>, evaluated from left to right.
\<close>

definition touches_selection :: "engine \<Rightarrow> district \<Rightarrow> geometry option \<Rightarrow> error + bool" where
  "touches_selection eng d incremental =
     (if \<not> truthy_opt (geom d) then Inr False
      else
        on_success (call (overlaps eng) (geom d) incremental) (\<lambda>over.
          if over then Inr True else call (contains eng) (geom d) incremental))"

text \<open>
  \<^verbatim>\<open>copy(district)\<close> with the new version and no primary key, saved, and the computed
  characteristics of the district cloned onto the copy.
\<close>

definition snapshot :: "engine \<Rightarrow> plan \<Rightarrow> district \<Rightarrow> district action" where
  "snapshot eng self d =
     and_then (save_district eng (d\<lparr>version := plan.version self + 1, district.id := None\<rparr>))
       (\<lambda>district_copy.
          and_then (clone_characteristics_from district_copy d) (\<lambda>_ s. (Inr district_copy, s)))"

text \<open>
  The branch of a district the selection does not touch: it is copied when it is not
  the latest version, and then counted. The result is what is added to \<open>fixed\<close>.
\<close>

definition carry_forward :: "engine \<Rightarrow> plan \<Rightarrow> district \<Rightarrow> nat action" where
  "carry_forward eng self d s =
     (case is_latest_version s d of
        Inl e \<Rightarrow> (Inl e, s)
      | Inr True \<Rightarrow> (Inr 0, s)
      | Inr False \<Rightarrow> and_then (snapshot eng self d) (\<lambda>_ s'. (Inr 1, s')) s)"

text \<open>
  The geometry a touched district is left with: \<^verbatim>\<open>district.geom.difference(incremental)\<close>
  in a \<^verbatim>\<open>try\<close>, then \<^verbatim>\<open>enforce_multi\<close>, then the test \<^verbatim>\<open>geom.empty\<close>. The result is the
  district with its new \<open>geom\<close> and \<open>simple\<close>.
\<close>

definition cut_district :: "engine \<Rightarrow> district \<Rightarrow> geometry option \<Rightarrow> error + district" where
  "cut_district eng d incremental =
     on_success (recovered (call (difference eng) (geom d) incremental) incremental) (\<lambda>g.
       (case enforce_multi (Some g) of
          None \<Rightarrow> Inl AttributeError
        | Some g' \<Rightarrow>
            if \<not> empty g'
            then Inr (d\<lparr>geom := Some g', simple := enforce_multi (Some (simplify eng g'))\<rparr>)
            else Inr (d\<lparr>geom := None, simple := None\<rparr>)))"

text \<open>The branch of a district the selection touches.\<close>

definition remove_from :: "engine \<Rightarrow> plan \<Rightarrow> nat list \<Rightarrow> int \<Rightarrow> geometry option \<Rightarrow> district \<Rightarrow> nat action" where
  "remove_from eng self geounit_ids geolevel incremental d s =
     (case get_mixed_geounits eng geounit_ids geolevel (geom d) True of
        Inl e \<Rightarrow> (Inl e, s)
      | Inr geounits \<Rightarrow>
          (case cut_district eng d incremental of
             Inl e \<Rightarrow> (Inl e, s)
           | Inr d' \<Rightarrow>
               and_then (snapshot eng self d') (\<lambda>district_copy.
                 and_then (delta_stats district_copy geounits False) (\<lambda>changed s'.
                   (Inr (if changed then 1 else 0), s'))) s))"

text \<open>
  The loop over the districts. \<open>target\<close> is \<open>None\<close> as long as the local variable is not
  bound.
\<close>

fun add_geounits_loop :: "engine \<Rightarrow> plan \<Rightarrow> int \<Rightarrow> nat list \<Rightarrow> int \<Rightarrow> geometry option \<Rightarrow> district list \<Rightarrow> district option \<Rightarrow> nat \<Rightarrow> (district option \<times> nat) action" where
  "add_geounits_loop eng self districtid geounit_ids geolevel incremental [] target fixed s =
     (Inr (target, fixed), s)"
| "add_geounits_loop eng self districtid geounit_ids geolevel incremental (d # rest) target fixed s =
     (if int (district_id d) = districtid
      then add_geounits_loop eng self districtid geounit_ids geolevel incremental rest (Some d) fixed s
      else
        (case touches_selection eng d incremental of
           Inl e \<Rightarrow> (Inl e, s)
         | Inr touched \<Rightarrow>
             and_then
               (if touched then remove_from eng self geounit_ids geolevel incremental d
                else carry_forward eng self d)
               (\<lambda>n. add_geounits_loop eng self districtid geounit_ids geolevel incremental rest target
                      (fixed + n)) s))"

text \<open>The new geometry of the target.\<close>

definition grow_target :: "engine \<Rightarrow> district \<Rightarrow> geometry option \<Rightarrow> error + district" where
  "grow_target eng target incremental =
     on_success
       (if geom target = None then Inr (enforce_multi incremental)
        else
          (case call (union eng) (geom target) incremental of
             Inl GEOSException \<Rightarrow> Inr None
           | Inl e \<Rightarrow> Inl e
           | Inr u \<Rightarrow> Inr (enforce_multi (Some u)))) (\<lambda>g.
       Inr (target\<lparr>geom := g,
                   simple := (case g of
                                None \<Rightarrow> None
                              | Some x \<Rightarrow> if truthy x then enforce_multi (Some (simplify eng x)) else None)\<rparr>))"

text \<open>The part of \<^verbatim>\<open>add_geounits\<close> after the loop, for a bound \<open>target\<close>.\<close>

definition add_to_target :: "engine \<Rightarrow> plan \<Rightarrow> nat list \<Rightarrow> int \<Rightarrow> geometry option \<Rightarrow> district \<Rightarrow> nat action" where
  "add_to_target eng self geounit_ids geolevel incremental target s =
     (case get_mixed_geounits eng geounit_ids geolevel (geom target) False of
        Inl e \<Rightarrow> (Inl e, s)
      | Inr geounits \<Rightarrow>
          (case grow_target eng target incremental of
             Inl e \<Rightarrow> (Inl e, s)
           | Inr target' \<Rightarrow>
               and_then (snapshot eng self target') (\<lambda>target_copy.
                 if truthy_opt (geom target_copy)
                 then and_then (delta_stats target_copy geounits True) (\<lambda>changed s'.
                        (Inr (if changed then 1 else 0), s'))
                 else (\<lambda>s'. (Inr 0, s'))) s))"

text \<open>
  \<^verbatim>\<open>Plan.add_geounits\<close>. The result is \<open>fixed\<close> and the plan instance, whose version the
  method has raised. A database that was written before an exception stays written.
\<close>

definition add_geounits :: "engine \<Rightarrow> plan \<Rightarrow> int \<Rightarrow> nat list \<Rightarrow> int \<Rightarrow> int \<Rightarrow> (nat \<times> plan) action" where
  "add_geounits eng self districtid geounit_ids geolevel v s =
     (let incremental = unionagg eng geounit_ids;
          ds = get_districts_at_version s self v
      in and_then (add_geounits_loop eng self districtid geounit_ids geolevel incremental ds None 0)
           (\<lambda>(target, fixed).
              case target of
                None \<Rightarrow> (\<lambda>s'. (Inl UnboundLocalError, s'))
              | Some t \<Rightarrow>
                  and_then (add_to_target eng self geounit_ids geolevel incremental t) (\<lambda>n.
                    and_then (save_plan eng (self\<lparr>plan.version := plan.version self + 1\<rparr>)) (\<lambda>self' s'.
                      (Inr (fixed + n, self'), s')))) s)"





section \<open>Reading the database\<close>

text \<open>
  The vocabulary of the properties: the version stored for the plan of a key, the
  number stored for a district and a subject (0 when there is no row), the sum of a
  subject over geounits (0 when no characteristic matches), and whether some subject
  has a non-zero sum over the geounits.
\<close>

definition plan_version_of :: "db \<Rightarrow> nat \<Rightarrow> nat option" where
  "plan_version_of s i =
     (case filter (\<lambda>p. plan.id p = Some i) (plans s) of
        [] \<Rightarrow> None
      | p # _ \<Rightarrow> Some (plan.version p))"

definition computed_number :: "db \<Rightarrow> district \<Rightarrow> nat \<Rightarrow> int" where
  "computed_number s d subj =
     (case filter (\<lambda>c. subject c = subj \<and> district c = district.id d \<and> district.id d \<noteq> None)
             (computedcharacteristics s) of
        [] \<Rightarrow> 0
      | c # _ \<Rightarrow> number c)"

definition sum_over :: "db \<Rightarrow> geounit list \<Rightarrow> nat \<Rightarrow> int" where
  "sum_over s geounits subj = (case aggregate s geounits subj of None \<Rightarrow> 0 | Some a \<Rightarrow> a)"

definition has_stats :: "db \<Rightarrow> geounit list \<Rightarrow> bool" where
  "has_stats s geounits = (\<exists>subj\<in>set (subjects s). sum_over s geounits subj \<noteq> 0)"

section \<open>Relations between two states of the database\<close>

text \<open>
  \<open>edit_step v s s'\<close>: from \<open>s\<close> to \<open>s'\<close> the subjects, the characteristics and the
  stored version of every plan are kept, and districts were only added, each at
  version \<open>v\<close>. \<open>only_computed s s'\<close>: nothing but the computed characteristics
  changed. \<open>copy_of v s d n\<close>: \<open>n\<close> is the row a save in \<open>s\<close> inserts for the copy of
  \<open>d\<close> at version \<open>v\<close>: it has a new key, and the \<open>district_id\<close> of \<open>d\<close> or, when the
  handler assigned one, a \<open>district_id\<close> above those of the plan.
\<close>

definition edit_step :: "nat \<Rightarrow> db \<Rightarrow> db \<Rightarrow> bool" where
  "edit_step v s s' \<longleftrightarrow>
     subjects s' = subjects s \<and> characteristics s' = characteristics s
     \<and> (\<forall>i. plan_version_of s' i = plan_version_of s i)
     \<and> (\<exists>new. districts s' = districts s @ new \<and> (\<forall>n\<in>set new. version n = v))"

definition only_computed :: "db \<Rightarrow> db \<Rightarrow> bool" where
  "only_computed s s' \<longleftrightarrow>
     subjects s' = subjects s \<and> characteristics s' = characteristics s
     \<and> plans s' = plans s \<and> districts s' = districts s"

definition copy_of :: "nat \<Rightarrow> db \<Rightarrow> district \<Rightarrow> district \<Rightarrow> bool" where
  "copy_of v s d n \<longleftrightarrow>
     (\<exists>k. n = d\<lparr>version := v, district.id := Some (fresh_id (map district.id (districts s))),
                 district_id := k\<rparr>
          \<and> (k = district_id d
             \<or> (\<forall>x\<in>set (districts s). plan x = plan d \<longrightarrow> district_id x < k)))"

text \<open>
  What \<^verbatim>\<open>add_geounits\<close> counts. A district that is not the target is counted when the
  selection does not touch it and it is not the latest version (it is carried forward),
  or when the selection touches it and some subject has a non-zero sum over the
  geounits found inside its boundary. The target is counted when its new geometry has a
  true truth value and some subject has a non-zero sum over the geounits found outside
  its boundary.
\<close>

definition counted :: "engine \<Rightarrow> db \<Rightarrow> nat list \<Rightarrow> int \<Rightarrow> geometry option \<Rightarrow> district \<Rightarrow> bool" where
  "counted eng s geounit_ids geolevel incremental d \<longleftrightarrow>
     (touches_selection eng d incremental = Inr False \<and> is_latest_version s d = Inr False)
     \<or> (touches_selection eng d incremental = Inr True
        \<and> (\<exists>units. get_mixed_geounits eng geounit_ids geolevel (geom d) True = Inr units
                    \<and> has_stats s units))"

definition target_counted :: "engine \<Rightarrow> db \<Rightarrow> nat list \<Rightarrow> int \<Rightarrow> geometry option \<Rightarrow> district \<Rightarrow> bool" where
  "target_counted eng s geounit_ids geolevel incremental t \<longleftrightarrow>
     (\<exists>units t'. get_mixed_geounits eng geounit_ids geolevel (geom t) False = Inr units
                 \<and> grow_target eng t incremental = Inr t'
                 \<and> truthy_opt (geom t') \<and> has_stats s units)"

section \<open>The stored totals\<close>







section \<open>Example data\<close>

text \<open>Concrete geometries, rows and databases, used to evaluate the definitions.\<close>

definition example_polygon :: geometry where
  "example_polygon = \<lparr>shape = Polygon [[(0, 0), (1, 0), (1, 1), (0, 0)]], srid = Some 3785\<rparr>"

definition example_line :: geometry where
  "example_line = \<lparr>shape = LineString [(0, 0), (1, 1)], srid = Some 3785\<rparr>"

definition empty_line :: geometry where
  "empty_line = \<lparr>shape = LineString [], srid = Some 3785\<rparr>"

definition example_plan :: plan where
  "example_plan = \<lparr>plan.id = Some 1, name = ''Plan A'', is_template = False, is_shared = False,
     version = 1, created = 0, edited = 0, owner = 1\<rparr>"

text \<open>A district row of the example plan without geometry: key, district_id, name, version.\<close>

definition row :: "nat \<Rightarrow> nat \<Rightarrow> string \<Rightarrow> nat \<Rightarrow> district" where
  "row pk did nm ver = \<lparr>district.id = Some pk, district_id = did, name = nm, plan = Some 1,
     geom = None, simple = None, version = ver\<rparr>"

definition example_db :: "district list \<Rightarrow> db" where
  "example_db rows = \<lparr>subjects = [], characteristics = [], plans = [example_plan],
     districts = rows, computedcharacteristics = []\<rparr>"

text \<open>
  A plan that is full when \<open>MAX_DISTRICTS\<close> is 2: ``Unassigned'' and two districts.
\<close>

definition full_db :: db where
  "full_db = example_db [row 1 1 ''Unassigned'' 0, row 2 2 ''District 1'' 0, row 3 3 ''District 2'' 0]"

text \<open>
  A small world for the examples: four blocks, the base geounits 1 to 4 at level 2, and
  two counties at level 1, geounit 11 made of the blocks 1 and 2 and geounit 12 made of
  the blocks 3 and 4. A region is a multipolygon of unit squares, the square of block
  \<open>i\<close> standing at \<open>x = i\<close>; the engine of the examples computes with the sets of
  squares, never fails, and tests a geounit by all of its squares.
\<close>

definition cell :: "nat \<Rightarrow> geos" where
  "cell i = Polygon [[(int i, 0), (int i + 1, 0), (int i + 1, 1), (int i, 1), (int i, 0)]]"

definition region :: "nat list \<Rightarrow> geometry" where
  "region cs = \<lparr>shape = MultiPolygon (map cell cs), srid = Some 3785\<rparr>"

fun cell_of :: "geos \<Rightarrow> nat list" where
  "cell_of (Polygon (((x, y) # ring) # rings)) = [nat x]"
| "cell_of _ = []"

definition cells :: "geometry \<Rightarrow> nat list" where
  "cells g = concat (map cell_of (geos_members (shape g)))"

definition unit_cells :: "nat \<Rightarrow> nat list" where
  "unit_cells i =
     (if i \<in> {1, 2, 3, 4} then [i] else if i = 11 then [1, 2] else if i = 12 then [3, 4] else [])"

definition unit_level :: "nat \<Rightarrow> int" where
  "unit_level i = (if i \<in> {11, 12} then 1 else 2)"

definition example_unit :: "nat \<Rightarrow> geounit" where
  "example_unit i = \<lparr>geounit.id = i, geom = region (unit_cells i)\<rparr>"

fun passes :: "spatial_test \<Rightarrow> nat \<Rightarrow> bool" where
  "passes (st_within g) i = (set (unit_cells i) \<subseteq> set (cells g))"
| "passes (st_intersects_center g) i = (set (unit_cells i) \<subseteq> set (cells g))"
| "passes (not_st_intersects g) i = (set (unit_cells i) \<inter> set (cells g) = {})"
| "passes (not_st_intersects_center g) i = (set (unit_cells i) \<inter> set (cells g) = {})"

fun example_fetchall :: "query \<Rightarrow> geounit list" where
  "example_fetchall (id_in ids t) =
     map example_unit (filter (\<lambda>i. unit_cells i \<noteq> [] \<and> passes t i) ids)"
| "example_fetchall (geolevel_is l t) =
     map example_unit (filter (\<lambda>i. unit_level i = l \<and> passes t i) [1, 2, 3, 4, 11, 12])"

definition example_engine :: engine where
  "example_engine =
     \<lparr>BASE_GEOLEVEL = 2, MAX_DISTRICTS = 2, now = 7, geolevels = [1, 2],
      unionagg = (\<lambda>ids. case concat (map unit_cells ids) of
                           [] \<Rightarrow> None
                         | cs \<Rightarrow> Some (region (remdups cs))),
      union = (\<lambda>a b. Some (region (cells a @ filter (\<lambda>c. c \<notin> set (cells a)) (cells b)))),
      difference = (\<lambda>a b. Some (region (filter (\<lambda>c. c \<notin> set (cells b)) (cells a)))),
      intersection = (\<lambda>a b. Some (region (filter (\<lambda>c. c \<in> set (cells b)) (cells a)))),
      overlaps = (\<lambda>a b. Some (set (cells a) \<inter> set (cells b) \<noteq> {}
                            \<and> \<not> set (cells a) \<subseteq> set (cells b)
                            \<and> \<not> set (cells b) \<subseteq> set (cells a))),
      contains = (\<lambda>a b. Some (set (cells b) \<subseteq> set (cells a))),
      simplify = (\<lambda>g. g),
      fetchall = example_fetchall\<rparr>"

text \<open>The same engine with a union that always fails.\<close>

definition failing_union_engine :: engine where
  "failing_union_engine = example_engine\<lparr>union := (\<lambda>a b. None)\<rparr>"

text \<open>The population of the four blocks, the one subject of the examples.\<close>

definition population :: "characteristic list" where
  "population =
     [\<lparr>characteristic.subject = 1, geounit = 1, number = 100\<rparr>,
      \<lparr>characteristic.subject = 1, geounit = 2, number = 150\<rparr>,
      \<lparr>characteristic.subject = 1, geounit = 3, number = 200\<rparr>,
      \<lparr>characteristic.subject = 1, geounit = 4, number = 50\<rparr>]"

text \<open>
  A stored district of the example plan: key, district_id, name, version, geometry.
  A stored total of the population: key, district, number.
\<close>

definition stored :: "nat \<Rightarrow> nat \<Rightarrow> string \<Rightarrow> nat \<Rightarrow> geometry option \<Rightarrow> district" where
  "stored pk did nm ver g = \<lparr>district.id = Some pk, district_id = did, name = nm, plan = Some 1,
     geom = g, simple = g, version = ver\<rparr>"

definition total :: "nat \<Rightarrow> nat \<Rightarrow> int \<Rightarrow> computedcharacteristic" where
  "total pk d n = \<lparr>computedcharacteristic.id = Some pk, subject = 1, district = Some d,
     number = n, percentage = None\<rparr>"

text \<open>
  The example plan at version 0, with every block in the district ``Unassigned'' and an
  empty district 2; and the database after the blocks 1 and 2 were moved to district 2.
\<close>

definition plan0 :: plan where
  "plan0 = example_plan\<lparr>plan.version := 0\<rparr>"

definition edit_db0 :: db where
  "edit_db0 = \<lparr>subjects = [1], characteristics = population, plans = [plan0],
     districts = [stored 1 1 ''Unassigned'' 0 (Some (region [1, 2, 3, 4])),
                  stored 2 2 ''District 1'' 0 None],
     computedcharacteristics = [total 1 1 500]\<rparr>"

definition edit_db1 :: db where
  "edit_db1 = \<lparr>subjects = [1], characteristics = population,
     plans = [example_plan\<lparr>edited := 7\<rparr>],
     districts = [stored 1 1 ''Unassigned'' 0 (Some (region [1, 2, 3, 4])),
                  stored 2 2 ''District 1'' 0 None,
                  stored 3 1 ''Unassigned'' 1 (Some (region [3, 4])),
                  stored 4 2 ''District 1'' 1 (Some (region [1, 2]))],
     computedcharacteristics = [total 1 1 500, total 2 3 250, total 3 4 250]\<rparr>"

text \<open>
  The example plan as stored after the first edit; the database after an edit of
  version 0 that names a district the plan does not have; a second plan and the
  database after its creation.
\<close>

definition plan1 :: plan where
  "plan1 = example_plan\<lparr>edited := 7\<rparr>"

definition unbound_db :: db where
  "unbound_db = edit_db1\<lparr>
     districts := districts edit_db1 @
       [stored 5 1 ''Unassigned'' 2 (Some (region [2, 3, 4])), stored 6 2 ''District 1'' 2 None],
     computedcharacteristics := computedcharacteristics edit_db1 @ [total 4 5 400]\<rparr>"



text \<open>
  The database after block 1 was added, at version 0, to the district ``Unassigned''
  that holds it already.
\<close>

definition carried_db :: db where
  "carried_db = edit_db1\<lparr>
     plans := [plan1\<lparr>plan.version := 2\<rparr>],
     districts := districts edit_db1 @
       [stored 5 2 ''District 1'' 2 None, stored 6 1 ''Unassigned'' 2 (Some (region [1, 2, 3, 4]))],
     computedcharacteristics := computedcharacteristics edit_db1 @ [total 4 6 500]\<rparr>"

text \<open>The engine of the examples with an intersection that fails, and with all three set operations failing.\<close>

definition failing_intersection_engine :: engine where
  "failing_intersection_engine = example_engine\<lparr>intersection := (\<lambda>a b. None)\<rparr>"

definition failing_engine :: engine where
  "failing_engine = example_engine\<lparr>union := (\<lambda>a b. None), difference := (\<lambda>a b. None),
     intersection := (\<lambda>a b. None)\<rparr>"



section \<open>Properties\<close>

subsection \<open>The districts of a plan at a version\<close>

lemma map_of_dict_set: "map_of (dict_set k v ps) = (map_of ps)(k \<mapsto> v)"
  by (induction ps) (auto simp: fun_eq_iff)

lemma keys_dict_set: "fst ` set (dict_set k v ps) = insert k (fst ` set ps)"
  by (induction ps) auto

lemma distinct_dict_set: "distinct (map fst ps) \<Longrightarrow> distinct (map fst (dict_set k v ps))"
proof (induction ps)
  case Nil
  then show ?case by simp
next
  case (Cons p ps)
  have "fst ` set (dict_set k v ps) = insert k (fst ` set ps)" by (rule keys_dict_set)
  with Cons show ?case by auto
qed

lemma distinct_collect_versions:
  "distinct (map fst acc) \<Longrightarrow> distinct (map fst (collect_versions v xs acc))"
  by (induction xs arbitrary: acc) (simp_all add: distinct_dict_set)

lemma keyed_dict_set:
  "\<forall>p\<in>set ps. fst p = district_id (snd p) \<Longrightarrow> \<forall>p\<in>set (dict_set (district_id d) d ps). fst p = district_id (snd p)"
  by (induction ps) auto

lemma keyed_collect_versions:
  "\<forall>p\<in>set acc. fst p = district_id (snd p) \<Longrightarrow> \<forall>p\<in>set (collect_versions v xs acc). fst p = district_id (snd p)"
proof (induction xs arbitrary: acc)
  case Nil
  then show ?case by simp
next
  case (Cons d xs)
  show ?case
  proof (cases "int (version d) > v")
    case True
    with Cons show ?thesis by simp
  next
    case False
    have "\<forall>p\<in>set (dict_set (district_id d) d acc). fst p = district_id (snd p)"
      using Cons.prems by (rule keyed_dict_set)
    from Cons.IH[OF this] False show ?thesis by simp
  qed
qed

lemma lookup_collect_versions:
  "map_of (collect_versions v xs acc) k =
     (let ys = filter (\<lambda>d. district_id d = k \<and> int (version d) \<le> v) xs
      in if ys = [] then map_of acc k else Some (last ys))"
proof (induction xs arbitrary: acc)
  case Nil
  then show ?case by simp
next
  case (Cons d xs)
  show ?case
  proof (cases "int (version d) > v")
    case True
    then show ?thesis using Cons.IH[of acc] by simp
  next
    case False
    show ?thesis
      using False Cons.IH[of "dict_set (district_id d) d acc"]
      by (simp add: map_of_dict_set Let_def)
  qed
qed

lemma sorted_last_max:
  "sorted (map f ys) \<Longrightarrow> y \<in> set ys \<Longrightarrow> f y \<le> f (last ys)"
proof (induction ys)
  case Nil
  then show ?case by simp
next
  case (Cons a ys)
  then show ?case by (cases ys) auto
qed

lemma at_version_lookup:
  assumes "r \<in> set (districts_at_version rows v)"
  shows "filter (\<lambda>d. district_id d = district_id r \<and> int (version d) \<le> v) (sort_key sortVer rows) \<noteq> []
         \<and> r = last (filter (\<lambda>d. district_id d = district_id r \<and> int (version d) \<le> v) (sort_key sortVer rows))"
proof -
  let ?al = "collect_versions v (sort_key sortVer rows) []"
  from assms obtain k where kr: "(k, r) \<in> set ?al"
    by (auto simp: districts_at_version_def)
  have "distinct (map fst ?al)" by (rule distinct_collect_versions) simp
  with kr have m: "map_of ?al k = Some r" by simp
  have "\<forall>p\<in>set ?al. fst p = district_id (snd p)" by (rule keyed_collect_versions) simp
  with kr have k: "k = district_id r" by auto
  from m show ?thesis
    unfolding k lookup_collect_versions by (simp add: Let_def split: if_splits)
qed

lemma at_version_sound:
  assumes "r \<in> set (districts_at_version rows v)"
  shows "r \<in> set rows \<and> int (version r) \<le> v
         \<and> (\<forall>d\<in>set rows. district_id d = district_id r \<and> int (version d) \<le> v \<longrightarrow> version d \<le> version r)"
proof -
  let ?P = "\<lambda>d. district_id d = district_id r \<and> int (version d) \<le> v"
  let ?F = "filter ?P (sort_key sortVer rows)"
  from at_version_lookup[OF assms] have f: "?F \<noteq> []" and r: "r = last ?F"
    by blast+
  from f have "last ?F \<in> set ?F" by (rule last_in_set)
  with r have rin: "r \<in> set ?F" by simp
  then have 1: "r \<in> set rows" "int (version r) \<le> v" by auto
  have srt: "sorted (map sortVer ?F)" by (simp add: sorted_filter)
  have "version d \<le> version r" if "d \<in> set rows" "?P d" for d
  proof -
    from that have "d \<in> set ?F" by simp
    from sorted_last_max[OF srt this] r have "sortVer d \<le> sortVer r" by simp
    with that show ?thesis by (simp add: sortVer_def)
  qed
  with 1 show ?thesis by blast
qed

lemma at_version_complete:
  assumes "d \<in> set rows" "int (version d) \<le> v"
  shows "\<exists>r\<in>set (districts_at_version rows v). district_id r = district_id d"
proof -
  let ?al = "collect_versions v (sort_key sortVer rows) []"
  let ?F = "filter (\<lambda>x. district_id x = district_id d \<and> int (version x) \<le> v) (sort_key sortVer rows)"
  from assms have "d \<in> set ?F" by simp
  then have f: "?F \<noteq> []" by (metis empty_iff empty_set)
  then have m: "map_of ?al (district_id d) = Some (last ?F)"
    by (simp add: lookup_collect_versions Let_def)
  then have "(district_id d, last ?F) \<in> set ?al" by (rule map_of_SomeD)
  then have in_r: "last ?F \<in> set (districts_at_version rows v)"
    by (force simp: districts_at_version_def)
  from f have "last ?F \<in> set ?F" by (rule last_in_set)
  then have "district_id (last ?F) = district_id d" by simp
  with in_r show ?thesis by blast
qed

lemma at_version_distinct: "distinct (map district_id (districts_at_version rows v))"
proof -
  let ?al = "collect_versions v (sort_key sortVer rows) []"
  have d: "distinct (map fst ?al)" by (rule distinct_collect_versions) simp
  have "\<forall>p\<in>set ?al. fst p = district_id (snd p)" by (rule keyed_collect_versions) simp
  then have "map district_id (districts_at_version rows v) = map fst ?al"
    by (simp add: districts_at_version_def)
  with d show ?thesis by simp
qed

lemma last_filter_last: "xs \<noteq> [] \<Longrightarrow> Q (last xs) \<Longrightarrow> last (filter Q xs) = last xs"
  by (induction xs rule: rev_induct) auto

lemma at_version_name:
  assumes r: "r \<in> set (districts_at_version rows v)" and srt: "sorted (map name rows)"
    and d: "d \<in> set rows" "district_id d = district_id r" "version d = version r"
  shows "name d \<le> name r"
proof -
  let ?P = "\<lambda>x. district_id x = district_id r \<and> int (version x) \<le> v"
  let ?Q = "\<lambda>x. sortVer x = sortVer r"
  let ?F = "filter ?P (sort_key sortVer rows)"
  let ?G = "filter ?P (filter ?Q rows)"
  from at_version_lookup[OF r] have f: "?F \<noteq> []" and l: "r = last ?F" by blast+
  from f have "last ?F \<in> set ?F" by (rule last_in_set)
  with l have rin: "r \<in> set ?F" by simp
  have "filter ?Q ?F = filter ?P (filter ?Q (sort_key sortVer rows))"
    by (simp add: conj_commute)
  also have "filter ?Q (sort_key sortVer rows) = filter ?Q rows" by (rule sort_key_stable)
  finally have fg: "filter ?Q ?F = ?G" .
  have "?Q (last ?F)" using l by simp
  with f have "last (filter ?Q ?F) = last ?F" by (rule last_filter_last)
  with l fg have lg: "r = last ?G" by simp
  have sg: "sorted (map name ?G)" using srt by (simp add: sorted_filter)
  from rin d have "d \<in> set ?G" by (simp add: sortVer_def)
  from sorted_last_max[OF sg this] lg show ?thesis by simp
qed

lemma at_version_order:
  assumes same: "set rows' = set rows"
    and srt: "sorted (map name rows)" and srt': "sorted (map name rows')"
    and uniq: "\<forall>a\<in>set rows. \<forall>b\<in>set rows.
                 district_id a = district_id b \<and> version a = version b \<and> name a = name b \<longrightarrow> a = b"
  shows "set (districts_at_version rows' v) \<subseteq> set (districts_at_version rows v)"
proof
  fix r assume r: "r \<in> set (districts_at_version rows' v)"
  from at_version_sound[OF r] same
  have r1: "r \<in> set rows" "int (version r) \<le> v"
    and r2: "\<forall>d\<in>set rows. district_id d = district_id r \<and> int (version d) \<le> v \<longrightarrow> version d \<le> version r"
    by auto
  from at_version_complete[OF r1] obtain q where q: "q \<in> set (districts_at_version rows v)"
    and qid: "district_id q = district_id r" by blast
  from at_version_sound[OF q]
  have q1: "q \<in> set rows" "int (version q) \<le> v"
    and q2: "\<forall>d\<in>set rows. district_id d = district_id q \<and> int (version d) \<le> v \<longrightarrow> version d \<le> version q"
    by auto
  from r2 q1 qid have "version q \<le> version r" by simp
  moreover from q2 r1 qid have "version r \<le> version q" by simp
  ultimately have ver: "version q = version r" by simp
  from q1 same have "q \<in> set rows'" by simp
  from at_version_name[OF r srt' this qid ver] have "name q \<le> name r" .
  moreover from at_version_name[OF q srt r1(1) qid[symmetric] ver[symmetric]] have "name r \<le> name q" .
  ultimately have "name q = name r" by simp
  with uniq q1 r1 qid ver have "q = r" by blast
  with q show "r \<in> set (districts_at_version rows v)" by simp
qed

lemma sorted_district_set: "sorted (map name (district_set s self))"
  by (cases "plan.id self") (simp_all add: district_set_def)

text \<open>
  Claim C1, as the code has it. \<^verbatim>\<open>get_districts_at_version\<close> returns at most one snapshot
  per \<open>district_id\<close>, one for every \<open>district_id\<close> that has a snapshot at or below the
  requested version; each returned snapshot is a snapshot of the plan at or below the
  requested version, no snapshot of the same \<open>district_id\<close> at or below that version
  has a higher version, and none at the same version has a greater name. When no two
  snapshots of the plan share \<open>district_id\<close>, \<open>version\<close> and \<open>name\<close>, the set of returned
  snapshots is the same for every storage order of the same snapshots.
\<close>

theorem get_districts_at_version_latest:
  "distinct (map district_id (get_districts_at_version s self v))
   \<and> (\<forall>d\<in>set (district_set s self). int (version d) \<le> v \<longrightarrow>
        (\<exists>r\<in>set (get_districts_at_version s self v). district_id r = district_id d))
   \<and> (\<forall>r\<in>set (get_districts_at_version s self v).
        r \<in> set (district_set s self) \<and> int (version r) \<le> v
        \<and> (\<forall>d\<in>set (district_set s self).
              district_id d = district_id r \<and> int (version d) \<le> v \<longrightarrow> version d \<le> version r)
        \<and> (\<forall>d\<in>set (district_set s self).
              district_id d = district_id r \<and> version d = version r \<longrightarrow> name d \<le> name r))
   \<and> (\<forall>s'. set (district_set s' self) = set (district_set s self)
          \<and> (\<forall>a\<in>set (district_set s self). \<forall>b\<in>set (district_set s self).
                district_id a = district_id b \<and> version a = version b \<and> name a = name b \<longrightarrow> a = b)
        \<longrightarrow> set (get_districts_at_version s' self v) = set (get_districts_at_version s self v))"
proof -
  have order: "set (get_districts_at_version s' self v) = set (get_districts_at_version s self v)"
    if same: "set (district_set s' self) = set (district_set s self)"
      and uniq: "\<forall>a\<in>set (district_set s self). \<forall>b\<in>set (district_set s self).
                district_id a = district_id b \<and> version a = version b \<and> name a = name b \<longrightarrow> a = b"
    for s'
  proof -
    from uniq same have uniq': "\<forall>a\<in>set (district_set s' self). \<forall>b\<in>set (district_set s' self).
                district_id a = district_id b \<and> version a = version b \<and> name a = name b \<longrightarrow> a = b" by simp
    have "set (districts_at_version (district_set s' self) v) \<subseteq> set (districts_at_version (district_set s self) v)"
      using same sorted_district_set sorted_district_set uniq by (rule at_version_order)
    moreover have "set (districts_at_version (district_set s self) v) \<subseteq> set (districts_at_version (district_set s' self) v)"
      using same[symmetric] sorted_district_set sorted_district_set uniq' by (rule at_version_order)
    ultimately show ?thesis by (simp add: get_districts_at_version_def)
  qed
  have nm: "name d \<le> name r"
    if "r \<in> set (districts_at_version (district_set s self) v)" "d \<in> set (district_set s self)"
      "district_id d = district_id r" "version d = version r" for r d
    using that(1) sorted_district_set that(2,3,4) by (rule at_version_name)
  show ?thesis
    unfolding get_districts_at_version_def
    using at_version_distinct[of "district_set s self" v]
      at_version_complete[of _ "district_set s self" v]
      at_version_sound[of _ "district_set s self" v]
      order[unfolded get_districts_at_version_def] nm
    by blast
qed

theorem get_districts_at_version_latest_witness:
  "set (get_districts_at_version
          (example_db [row 4 1 ''Unassigned'' 2, row 3 1 ''Unassigned'' 1, row 2 2 ''District 1'' 1,
                       row 1 1 ''Unassigned'' 0]) example_plan 1)
     = {row 3 1 ''Unassigned'' 1, row 2 2 ''District 1'' 1}
   \<and> get_districts_at_version
         (example_db [row 1 1 ''Unassigned'' 0, row 2 2 ''District 1'' 1, row 3 1 ''Unassigned'' 1,
                      row 4 1 ''Unassigned'' 2]) example_plan 1
       = [row 3 1 ''Unassigned'' 1, row 2 2 ''District 1'' 1]"
proof -
  let ?a = "example_db [row 1 1 ''Unassigned'' 0, row 2 2 ''District 1'' 1, row 3 1 ''Unassigned'' 1,
                        row 4 1 ''Unassigned'' 2]"
  let ?b = "example_db [row 4 1 ''Unassigned'' 2, row 3 1 ''Unassigned'' 1, row 2 2 ''District 1'' 1,
                        row 1 1 ''Unassigned'' 0]"
  have a: "get_districts_at_version ?a example_plan 1 = [row 3 1 ''Unassigned'' 1, row 2 2 ''District 1'' 1]"
    by (simp add: get_districts_at_version_def districts_at_version_def district_set_def
        example_db_def example_plan_def row_def sortVer_def)
  have same: "set (district_set ?b example_plan) = set (district_set ?a example_plan)"
    by (auto simp: district_set_def example_db_def example_plan_def)
  have uniq: "\<forall>x\<in>set (district_set ?a example_plan). \<forall>y\<in>set (district_set ?a example_plan).
                district_id x = district_id y \<and> version x = version y \<and> name x = name y \<longrightarrow> x = y"
    by (simp add: district_set_def example_db_def example_plan_def row_def)
  from get_districts_at_version_latest[of ?a example_plan 1] same uniq
  have "set (get_districts_at_version ?b example_plan 1) = set (get_districts_at_version ?a example_plan 1)"
    by blast
  with a show ?thesis by simp
qed

text \<open>
  Two snapshots of one \<open>district_id\<close> at one version under different names: the one of
  the greater name is returned, in whichever order the two are stored. Under one name,
  the snapshot returned depends on the order in which the query yields the two: the
  stable sort keeps them in that order, and the later one replaces the earlier one in
  the dictionary.
\<close>

lemma get_districts_at_version_names:
  "get_districts_at_version (example_db [row 1 1 ''a'' 0, row 2 1 ''b'' 0]) example_plan 0 = [row 2 1 ''b'' 0]
   \<and> get_districts_at_version (example_db [row 2 1 ''b'' 0, row 1 1 ''a'' 0]) example_plan 0 = [row 2 1 ''b'' 0]"
  by (simp add: get_districts_at_version_def districts_at_version_def district_set_def example_db_def example_plan_def row_def sortVer_def)

theorem get_districts_at_version_order_counterexample:
  "set (district_set (example_db [row 1 1 ''a'' 0, row 2 1 ''a'' 0]) example_plan)
     = set (district_set (example_db [row 2 1 ''a'' 0, row 1 1 ''a'' 0]) example_plan)
   \<and> get_districts_at_version (example_db [row 1 1 ''a'' 0, row 2 1 ''a'' 0]) example_plan 0 = [row 2 1 ''a'' 0]
   \<and> get_districts_at_version (example_db [row 2 1 ''a'' 0, row 1 1 ''a'' 0]) example_plan 0 = [row 1 1 ''a'' 0]
   \<and> row 1 1 ''a'' 0 \<noteq> row 2 1 ''a'' 0"
  by (auto simp add: get_districts_at_version_def districts_at_version_def district_set_def example_db_def example_plan_def row_def sortVer_def)

subsection \<open>enforce_multi\<close>

text \<open>
  Claim C7, as the code has it. \<^verbatim>\<open>enforce_multi\<close> returns its argument unchanged when the
  argument is \<^verbatim>\<open>None\<close>, a geometry of length 0, or a multipolygon; it wraps a polygon of
  non-zero length into a multipolygon; for any other geometry of non-zero length it
  returns the canonical empty geometry with the spatial reference of the argument. So
  the result is \<^verbatim>\<open>None\<close>, a multipolygon or a geometry of length 0.
\<close>

theorem enforce_multi_cases:
  "enforce_multi None = None
   \<and> (\<forall>g. \<not> truthy g \<longrightarrow> enforce_multi (Some g) = Some g)
   \<and> (\<forall>g. truthy g \<and> geom_type g = ''MultiPolygon'' \<longrightarrow> enforce_multi (Some g) = Some g)
   \<and> (\<forall>g. truthy g \<and> geom_type g = ''Polygon'' \<longrightarrow>
          enforce_multi (Some g) = Some \<lparr>shape = MultiPolygon [shape g], srid = None\<rparr>)
   \<and> (\<forall>g. truthy g \<and> geom_type g \<noteq> ''MultiPolygon'' \<and> geom_type g \<noteq> ''Polygon'' \<longrightarrow>
          enforce_multi (Some g) = Some (empty_geom (srid g)))
   \<and> (\<forall>geom r. enforce_multi geom = Some r \<longrightarrow> geom_type r = ''MultiPolygon'' \<or> \<not> truthy r)"
proof -
  have last: "geom_type r = ''MultiPolygon'' \<or> \<not> truthy r" if "enforce_multi geom = Some r" for geom r
    using that
    by (auto simp: enforce_multi_def MultiPolygon_of_def empty_geom_def geom_type_def truthy_def
        split: option.splits if_splits)
  show ?thesis
    using last by (simp add: enforce_multi_def MultiPolygon_of_def)
qed

theorem enforce_multi_cases_witness:
  "enforce_multi (Some example_polygon)
     = Some \<lparr>shape = MultiPolygon [Polygon [[(0, 0), (1, 0), (1, 1), (0, 0)]]], srid = None\<rparr>
   \<and> enforce_multi (Some example_line) = Some (empty_geom (Some 3785))
   \<and> enforce_multi (Some empty_line) = Some empty_line"
proof -
  have p: "truthy example_polygon \<and> geom_type example_polygon = ''Polygon''"
    by (simp add: truthy_def geom_type_def example_polygon_def)
  have l: "truthy example_line \<and> geom_type example_line \<noteq> ''MultiPolygon'' \<and> geom_type example_line \<noteq> ''Polygon''"
    by (simp add: truthy_def geom_type_def example_line_def)
  have e: "\<not> truthy empty_line"
    by (simp add: truthy_def empty_line_def)
  from enforce_multi_cases p have "enforce_multi (Some example_polygon) = Some \<lparr>shape = MultiPolygon [shape example_polygon], srid = None\<rparr>"
    by blast
  moreover from enforce_multi_cases l have "enforce_multi (Some example_line) = Some (empty_geom (srid example_line))"
    by blast
  moreover from enforce_multi_cases e have "enforce_multi (Some empty_line) = Some empty_line"
    by blast
  ultimately show ?thesis by (simp add: example_polygon_def example_line_def)
qed

text \<open>
  \<^verbatim>\<open>None\<close> and an empty line come back as they are: the result is neither a
  multipolygon nor the canonical empty geometry.
\<close>

theorem enforce_multi_counterexample:
  "enforce_multi None = None
   \<and> enforce_multi (Some empty_line) = Some empty_line
   \<and> geom_type empty_line = ''LineString''
   \<and> empty_line \<noteq> empty_geom (srid empty_line)"
  by (simp add: enforce_multi_def truthy_def empty_line_def geom_type_def empty_geom_def)

subsection \<open>The latest version of a district\<close>

lemma fold_max_ge: "fold max xs (a::nat) \<ge> a"
proof (induction xs arbitrary: a)
  case Nil
  then show ?case by simp
next
  case (Cons y ys)
  have "a \<le> max y a" by simp
  also have "max y a \<le> fold max ys (max y a)" by (rule Cons)
  finally show ?case by simp
qed

lemma fold_max_upper: "x \<in> set xs \<Longrightarrow> x \<le> fold max xs (a::nat)"
proof (induction xs arbitrary: a)
  case Nil
  then show ?case by simp
next
  case (Cons y ys)
  show ?case
  proof (cases "x = y")
    case True
    have "max y a \<le> fold max ys (max y a)" by (rule fold_max_ge)
    with True show ?thesis by simp
  next
    case False
    with Cons show ?thesis by simp
  qed
qed

lemma fold_max_mem: "fold max xs (a::nat) = a \<or> fold max xs a \<in> set xs"
proof (induction xs arbitrary: a)
  case Nil
  then show ?case by simp
next
  case (Cons y ys)
  from Cons[of "max y a"] show ?case by (auto simp: max_def split: if_splits)
qed

lemma max_of_None: "max_of xs = None \<longleftrightarrow> xs = []"
  by (simp add: max_of_def split: list.splits)

lemma max_of_upper: "max_of xs = Some m \<Longrightarrow> x \<in> set xs \<Longrightarrow> x \<le> m"
  using fold_max_ge fold_max_upper
  by (fastforce simp: max_of_def split: list.splits)

lemma max_of_mem: "max_of xs = Some m \<Longrightarrow> m \<in> set xs"
  using fold_max_mem by (fastforce simp: max_of_def split: list.splits)

lemma max_of_Max: "xs \<noteq> [] \<Longrightarrow> max_of xs = Some (Max (set xs))"
proof -
  assume ne: "xs \<noteq> []"
  then obtain m where m: "max_of xs = Some m" using max_of_None[of xs] by (cases "max_of xs") auto
  have "Max (set xs) = m"
  proof (rule Max_eqI)
    show "finite (set xs)" by simp
    show "\<And>y. y \<in> set xs \<Longrightarrow> y \<le> m" using m by (rule max_of_upper)
    show "m \<in> set xs" using m by (rule max_of_mem)
  qed
  with m show ?thesis by simp
qed

lemma max_of_set: "set xs = set ys \<Longrightarrow> max_of xs = max_of ys"
proof (cases "xs = []")
  case True
  moreover assume "set xs = set ys"
  ultimately have "ys = []" by simp
  with True show ?thesis by simp
next
  case False
  moreover assume eq: "set xs = set ys"
  ultimately have "ys \<noteq> []" by auto
  with False eq show ?thesis by (simp add: max_of_Max)
qed

lemma is_latest_version_stored:
  assumes "plan self = Some i" and "filter (\<lambda>p. plan.id p = Some i) (plans s) \<noteq> []"
    and "self \<in> set (districts s)"
  shows "is_latest_version s self =
           Inr (\<not> (\<exists>d\<in>set (districts s). plan d = Some i \<and> district_id d = district_id self
                        \<and> version self < version d))"
proof -
  from assms(2) obtain p ps where p: "filter (\<lambda>p. plan.id p = Some i) (plans s) = p # ps"
    by (cases "filter (\<lambda>p. plan.id p = Some i) (plans s)") auto
  then have "p \<in> set (filter (\<lambda>p. plan.id p = Some i) (plans s))" by simp
  then have pid: "plan.id p = Some i" by simp
  let ?q = "filter (\<lambda>d. district_id d = district_id self) (district_set s p)"
  have mem: "self \<in> set ?q" using assms(1,3) pid by (simp add: district_set_def)
  then have ne: "map version ?q \<noteq> []" by (metis empty_iff empty_set map_is_Nil_conv)
  have vin: "version self \<in> set (map version ?q)"
    unfolding set_map using mem by (rule imageI)
  have vs: "set (map version ?q) = version ` {d \<in> set (districts s). plan d = Some i \<and> district_id d = district_id self}"
    using pid by (auto simp: district_set_def)
  have "(Max (set (map version ?q)) = version self) \<longleftrightarrow> (\<forall>x\<in>set (map version ?q). x \<le> version self)"
    using vin by (subst Max_eq_iff) auto
  also have "\<dots> \<longleftrightarrow> \<not> (\<exists>d\<in>set (districts s). plan d = Some i \<and> district_id d = district_id self \<and> version self < version d)"
    unfolding vs by (auto simp: not_less)
  finally have "(Some (version self) = max_of (map version ?q)) \<longleftrightarrow>
        \<not> (\<exists>d\<in>set (districts s). plan d = Some i \<and> district_id d = district_id self \<and> version self < version d)"
    unfolding max_of_Max[OF ne] by auto
  then show ?thesis using assms(1) p by (simp add: is_latest_version_def Let_def)
qed

text \<open>
  Claim C8 at its failing input: for a district that has no plan, \<^verbatim>\<open>is_latest_version\<close>
  does not return true; it raises \<open>NameError\<close>, whatever the database and the other
  fields of the district are.
\<close>

theorem is_latest_version_without_plan:
  "is_latest_version s (self\<lparr>plan := None\<rparr>) = Inl NameError"
  by (simp add: is_latest_version_def)

subsection \<open>Saving districts and creating plans\<close>

lemma fresh_id_new: "Some (fresh_id ks) \<notin> set ks"
proof
  assume "Some (fresh_id ks) \<in> set ks"
  then have "fresh_id ks \<in> set (map (\<lambda>k. case k of None \<Rightarrow> 0 | Some i \<Rightarrow> i) ks)"
    by force
  then have "fresh_id ks \<le> fold max (map (\<lambda>k. case k of None \<Rightarrow> 0 | Some i \<Rightarrow> i) ks) 0"
    by (rule fold_max_upper)
  then show False by (simp add: fresh_id_def)
qed

lemma and_then_cases:
  assumes "and_then m f s = (r, s')"
  shows "(\<exists>e. m s = (Inl e, s') \<and> r = Inl e) \<or> (\<exists>x s1. m s = (Inr x, s1) \<and> f x s1 = (r, s'))"
proof (cases "m s")
  case (Pair a s1)
  with assms show ?thesis by (cases a) (simp_all add: and_then_def)
qed

lemma and_then_Inr:
  assumes "and_then m f s = (Inr y, s')"
  shows "\<exists>x s1. m s = (Inr x, s1) \<and> f x s1 = (Inr y, s')"
  using and_then_cases[OF assms] by auto

lemma write_plan_districts: "write_plan p s = (p', s') \<Longrightarrow> districts s' = districts s"
  by (auto simp: write_plan_def Let_def split: if_splits)

lemma save_plan_districts: "save_plan eng p s = (r, s') \<Longrightarrow> districts s' = districts s"
  by (auto simp: save_plan_def split: prod.splits dest: write_plan_districts)

lemma update_plan_edited_time_districts:
  assumes "update_plan_edited_time eng d s = (r, s')"
  shows "districts s' = districts s"
proof (cases "filter (\<lambda>p. plan.id p = plan d \<and> plan d \<noteq> None) (plans s)")
  case Nil
  with assms show ?thesis by (simp add: update_plan_edited_time_def)
next
  case (Cons p ps)
  with assms have "and_then (save_plan eng (p\<lparr>edited := now eng\<rparr>)) (\<lambda>_ s'. (Inr (), s')) s = (r, s')"
    by (simp add: update_plan_edited_time_def)
  from and_then_cases[OF this] show ?thesis
    by (auto dest: save_plan_districts)
qed

text \<open>
  The handler on a district whose \<open>district_id\<close> is not set (0 or \<^verbatim>\<open>None\<close>): the district
  is assigned one more than the largest \<open>district_id\<close> of its plan, or 1 when the plan
  has no district. When that number is larger than \<open>MAX_DISTRICTS + 1\<close> (the district
  ``Unassigned'' is not counted in the maximum), the save raises \<open>ValidationError\<close> and
  the database is as it was; otherwise a save that returns has stored the district
  under that number.
\<close>

lemma set_district_id_assigns:
  assumes "district_id d = 0"
  shows "let ids = map district_id (filter (\<lambda>r. plan r = plan d) (districts s));
             new = (if ids = [] then 1 else Max (set ids) + 1)
         in if new > MAX_DISTRICTS eng + 1
            then set_district_id eng s d = Inl ValidationError
                 \<and> save_district eng d s = (Inl ValidationError, s)
            else set_district_id eng s d = Inr (d\<lparr>district_id := new\<rparr>)
                 \<and> (\<forall>r s'. save_district eng d s = (Inr r, s') \<longrightarrow>
                        district_id r = new \<and> r \<in> set (districts s'))"
proof -
  let ?ids = "map district_id (filter (\<lambda>r. plan r = plan d) (districts s))"
  let ?new = "if ?ids = [] then 1 else Max (set ?ids) + 1"
  have assigned: "(case max_of ?ids of None \<Rightarrow> 1 | Some m \<Rightarrow> if m \<noteq> 0 then m + 1 else 1) = ?new"
  proof (cases "?ids = []")
    case True
    then show ?thesis by (simp add: max_of_def)
  next
    case False
    then have "max_of ?ids = Some (Max (set ?ids))" by (rule max_of_Max)
    with False show ?thesis by simp
  qed
  have sd: "set_district_id eng s d =
      (if ?new > MAX_DISTRICTS eng + 1 then Inl ValidationError else Inr (d\<lparr>district_id := ?new\<rparr>))"
    using assms unfolding set_district_id_def Let_def assigned[symmetric] by simp
  have saved: "district_id r = ?new \<and> r \<in> set (districts s')"
    if sv: "save_district eng d s = (Inr r, s')" and ok: "\<not> ?new > MAX_DISTRICTS eng + 1" for r s'
  proof -
    obtain d2 s1 where w: "write_district (d\<lparr>district_id := ?new\<rparr>) s = (d2, s1)"
      by (cases "write_district (d\<lparr>district_id := ?new\<rparr>) s")
    then have d2: "district_id d2 = ?new \<and> d2 \<in> set (districts s1)"
      by (auto simp: write_district_def Let_def split: if_splits)
    from sd ok have "set_district_id eng s d = Inr (d\<lparr>district_id := ?new\<rparr>)" by simp
    with sv w have "and_then (update_plan_edited_time eng d2) (\<lambda>_ s2. (Inr d2, s2)) s1 = (Inr r, s')"
      by (simp add: save_district_def)
    from and_then_Inr[OF this] obtain u s2 where
      u: "update_plan_edited_time eng d2 s1 = (Inr u, s2)" and "(Inr d2, s2) = (Inr r, s')" by blast
    then have "r = d2" "s' = s2" by simp_all
    moreover from u have "districts s2 = districts s1" by (rule update_plan_edited_time_districts)
    ultimately show ?thesis using d2 by simp
  qed
  show ?thesis
  proof (cases "?new > MAX_DISTRICTS eng + 1")
    case True
    with sd have "set_district_id eng s d = Inl ValidationError" by simp
    then have "save_district eng d s = (Inl ValidationError, s)" by (simp add: save_district_def)
    with True sd show ?thesis unfolding Let_def by simp
  next
    case False
    with sd saved show ?thesis unfolding Let_def by simp
  qed
qed


lemma set_district_id_assigns_example:
  "set_district_id example_engine edit_db0 (stored 9 0 ''District 2'' 0 None)
     = Inr (stored 9 3 ''District 2'' 0 None)
   \<and> save_district example_engine (row 9 0 ''District 3'' 0)
         (example_db [row 1 1 ''Unassigned'' 0, row 2 3 ''District 2'' 0])
       = (Inl ValidationError, example_db [row 1 1 ''Unassigned'' 0, row 2 3 ''District 2'' 0])"
proof -
  have "district_id (stored 9 0 ''District 2'' 0 None) = 0" by (simp add: stored_def)
  from set_district_id_assigns[OF this, of edit_db0 example_engine]
  have 1: "set_district_id example_engine edit_db0 (stored 9 0 ''District 2'' 0 None)
     = Inr (stored 9 3 ''District 2'' 0 None)"
    by (simp add: stored_def edit_db0_def example_engine_def)
  have "district_id (row 9 0 ''District 3'' 0) = 0" by (simp add: row_def)
  from set_district_id_assigns[OF this, of "example_db [row 1 1 ''Unassigned'' 0, row 2 3 ''District 2'' 0]" example_engine]
  have 2: "save_district example_engine (row 9 0 ''District 3'' 0)
         (example_db [row 1 1 ''Unassigned'' 0, row 2 3 ''District 2'' 0])
       = (Inl ValidationError, example_db [row 1 1 ''Unassigned'' 0, row 2 3 ''District 2'' 0])"
    by (simp add: row_def example_db_def example_engine_def)
  from 1 2 show ?thesis by simp
qed

text \<open>
  Claim C5. A district built without a \<open>district_id\<close> carries the default 1 of the field,
  which the handler takes as set: it assigns nothing and raises nothing. Saved to a plan
  that is full, the district is stored as a second district of \<open>district_id\<close> 1, where
  the handler on a \<open>district_id\<close> that is not set raises \<open>ValidationError\<close>.
\<close>

theorem set_district_id_default:
  "set_district_id example_engine full_db (new_district ''District 3'' (Some 1))
     = Inr (new_district ''District 3'' (Some 1))
   \<and> fst (save_district example_engine (new_district ''District 3'' (Some 1)) full_db)
       = Inr (row 4 1 ''District 3'' 0)
   \<and> map district_id (districts (snd (save_district example_engine (new_district ''District 3'' (Some 1)) full_db)))
       = [1, 2, 3, 1]
   \<and> save_district example_engine ((new_district ''District 3'' (Some 1))\<lparr>district_id := 0\<rparr>) full_db
       = (Inl ValidationError, full_db)"
proof -
  have 1: "set_district_id example_engine full_db (new_district ''District 3'' (Some 1))
     = Inr (new_district ''District 3'' (Some 1))"
    by (simp add: set_district_id_def new_district_def)
  have 2: "fst (save_district example_engine (new_district ''District 3'' (Some 1)) full_db)
       = Inr (row 4 1 ''District 3'' 0)"
    by code_simp
  have 3: "map district_id (districts (snd (save_district example_engine (new_district ''District 3'' (Some 1)) full_db)))
       = [1, 2, 3, 1]"
    by code_simp
  have 4: "save_district example_engine ((new_district ''District 3'' (Some 1))\<lparr>district_id := 0\<rparr>) full_db
       = (Inl ValidationError, full_db)"
    by code_simp
  from 1 2 3 4 show ?thesis by simp
qed

text \<open>
  Claim C9. In a database where every district belongs to a stored plan, the creation of
  a plan returns the new plan, at version 0, and the districts of the new plan are
  exactly one: the district ``Unassigned'' at version 0, with no geometry and no
  simplified geometry.
\<close>

theorem create_plan_unassigned:
  assumes fk: "\<forall>d\<in>set (districts s). plan d \<in> set (map plan.id (plans s))"
  shows "\<exists>p s'. create_plan eng nm user s = (Inr p, s')
           \<and> plan.id p = Some (fresh_id (map plan.id (plans s)))
           \<and> plan.version p = 0
           \<and> plan_version_of s' (fresh_id (map plan.id (plans s))) = Some 0
           \<and> district_set s' p =
               [\<lparr>district.id = Some (fresh_id (map district.id (districts s))), district_id = 1,
                 name = ''Unassigned'', plan = plan.id p, geom = None, simple = None, version = 0\<rparr>]"
proof -
  let ?k = "fresh_id (map plan.id (plans s))"
  let ?p = "\<lparr>plan.id = Some ?k, name = nm, is_template = False, is_shared = False,
              version = 0, created = now eng, edited = now eng, owner = user\<rparr>"
  let ?s1 = "s\<lparr>plans := plans s @ [?p]\<rparr>"
  let ?d = "\<lparr>district.id = None, district_id = Suc 0, name = ''Unassigned'',
             plan = Some ?k, geom = None, simple = None, version = 0\<rparr>"
  let ?u = "\<lparr>district.id = Some (fresh_id (map district.id (districts s))), district_id = Suc 0,
             name = ''Unassigned'', plan = Some ?k, geom = None, simple = None, version = 0\<rparr>"
  let ?s2 = "?s1\<lparr>districts := districts s @ [?u]\<rparr>"
  let ?s3 = "?s2\<lparr>plans := map (\<lambda>r. if plan.id r = Some ?k then ?p else r) (plans s @ [?p])\<rparr>"
  have wp: "write_plan \<lparr>plan.id = None, name = nm, is_template = False, is_shared = False,
              version = 0, created = now eng, edited = now eng, owner = user\<rparr> s = (?p, ?s1)"
    by (simp add: write_plan_def Let_def)
  have nok: "\<And>r. r \<in> set (plans s) \<Longrightarrow> plan.id r \<noteq> Some ?k"
    using fresh_id_new[of "map plan.id (plans s)"] by (metis image_eqI set_map)
  have fl: "filter (\<lambda>p. plan.id p = Some ?k) (plans s) = []"
    using nok by (simp add: filter_empty_conv)
  have sd: "set_district_id eng ?s1 ?d = Inr ?d"
    by (simp add: set_district_id_def)
  have wd: "write_district ?d ?s1 = (?u, ?s2)"
    by (simp add: write_district_def Let_def)
  have up: "update_plan_edited_time eng ?u ?s2 = (Inr (), ?s3)"
    by (simp add: update_plan_edited_time_def fl and_then_def save_plan_def write_plan_def Let_def)
  have sv: "save_district eng ?d ?s1 = (Inr ?u, ?s3)"
    by (simp only: save_district_def sd sum.case wd prod.case and_then_def up)
  have cp: "create_plan eng nm user s = (Inr ?p, ?s3)"
    by (simp add: create_plan_def wp and_then_def set_geounit_mapping_def sv del: One_nat_def)
       (simp add: sv)
  have mp: "map (\<lambda>r. if plan.id r = Some ?k then ?p else r) (plans s) = plans s"
    using nok by (simp add: map_idI)
  have pv: "plan_version_of ?s3 ?k = Some 0"
    by (simp add: plan_version_of_def fl mp)
  have "\<And>d. d \<in> set (districts s) \<Longrightarrow> plan d \<noteq> Some ?k"
    using fk fresh_id_new[of "map plan.id (plans s)"] by metis
  then have "filter (\<lambda>d. plan d = Some ?k) (districts s) = []"
    by (simp add: filter_empty_conv)
  then have ds: "district_set ?s3 ?p = [?u]"
    by (simp add: district_set_def)
  from cp pv ds show ?thesis by simp
qed

theorem create_plan_unassigned_witness:
  "create_plan example_engine ''Plan B'' 5 edit_db1
     = (Inr \<lparr>plan.id = Some 2, name = ''Plan B'', is_template = False, is_shared = False,
             version = 0, created = 7, edited = 7, owner = 5\<rparr>,
        edit_db1\<lparr>plans := plans edit_db1 @
                    [\<lparr>plan.id = Some 2, name = ''Plan B'', is_template = False, is_shared = False,
                      version = 0, created = 7, edited = 7, owner = 5\<rparr>],
                 districts := districts edit_db1 @
                    [\<lparr>district.id = Some 5, district_id = 1, name = ''Unassigned'', plan = Some 2,
                      geom = None, simple = None, version = 0\<rparr>]\<rparr>)
   \<and> district_set (snd (create_plan example_engine ''Plan B'' 5 edit_db1))
         \<lparr>plan.id = Some 2, name = ''Plan B'', is_template = False, is_shared = False,
          version = 0, created = 7, edited = 7, owner = 5\<rparr>
       = [\<lparr>district.id = Some 5, district_id = 1, name = ''Unassigned'', plan = Some 2,
           geom = None, simple = None, version = 0\<rparr>]"
proof -
  have fk: "\<forall>d\<in>set (districts edit_db1). plan d \<in> set (map plan.id (plans edit_db1))"
    by (simp add: edit_db1_def stored_def example_plan_def)
  have k: "fresh_id (map plan.id (plans edit_db1)) = 2" "fresh_id (map district.id (districts edit_db1)) = 5"
    by (simp_all add: fresh_id_def edit_db1_def stored_def example_plan_def)
  have run: "create_plan example_engine ''Plan B'' 5 edit_db1
     = (Inr \<lparr>plan.id = Some 2, name = ''Plan B'', is_template = False, is_shared = False,
             version = 0, created = 7, edited = 7, owner = 5\<rparr>,
        edit_db1\<lparr>plans := plans edit_db1 @
                    [\<lparr>plan.id = Some 2, name = ''Plan B'', is_template = False, is_shared = False,
                      version = 0, created = 7, edited = 7, owner = 5\<rparr>],
                 districts := districts edit_db1 @
                    [\<lparr>district.id = Some 5, district_id = 1, name = ''Unassigned'', plan = Some 2,
                      geom = None, simple = None, version = 0\<rparr>]\<rparr>)"
    by code_simp
  from create_plan_unassigned[OF fk, of example_engine "''Plan B''" 5] obtain p s' where
    c: "create_plan example_engine ''Plan B'' 5 edit_db1 = (Inr p, s')"
    and d: "district_set s' p = [\<lparr>district.id = Some (fresh_id (map district.id (districts edit_db1))),
           district_id = 1, name = ''Unassigned'', plan = plan.id p, geom = None, simple = None, version = 0\<rparr>]"
    by blast
  from c run have "p = \<lparr>plan.id = Some 2, name = ''Plan B'', is_template = False, is_shared = False,
             version = 0, created = 7, edited = 7, owner = 5\<rparr>" by simp
  with c d k run show ?thesis by simp
qed

subsection \<open>What an edit writes\<close>

lemma edit_step_refl: "edit_step v s s"
  by (simp add: edit_step_def)

lemma edit_step_trans: "edit_step v s s1 \<Longrightarrow> edit_step v s1 s2 \<Longrightarrow> edit_step v s s2"
  unfolding edit_step_def by (elim conjE exE) auto

subsection \<open>Writes to the computed characteristics\<close>

lemma only_computed_refl: "only_computed s s"
  by (simp add: only_computed_def)

lemma only_computed_trans: "only_computed s s1 \<Longrightarrow> only_computed s1 s2 \<Longrightarrow> only_computed s s2"
  by (simp add: only_computed_def)

lemma only_computed_step: "only_computed s s' \<Longrightarrow> edit_step v s s'"
  by (simp add: only_computed_def edit_step_def plan_version_of_def)

lemma save_computed_only: "save_computed c s = (r, s') \<Longrightarrow> only_computed s s'"
  by (auto simp: save_computed_def only_computed_def Let_def split: if_splits)

lemma clone_rows_only: "clone_rows self cs s = (r, s') \<Longrightarrow> only_computed s s'"
proof (induction cs arbitrary: s)
  case Nil
  then show ?case by (simp add: only_computed_refl)
next
  case (Cons c cs)
  from Cons.prems have "and_then (save_computed (c\<lparr>computedcharacteristic.id := None, district := district.id self\<rparr>))
       (\<lambda>_. clone_rows self cs) s = (r, s')" by simp
  from and_then_cases[OF this] show ?case
  proof (elim disjE exE conjE)
    fix e assume "save_computed (c\<lparr>computedcharacteristic.id := None, district := district.id self\<rparr>) s = (Inl e, s')"
    then show ?thesis by (rule save_computed_only)
  next
    fix x s1
    assume 1: "save_computed (c\<lparr>computedcharacteristic.id := None, district := district.id self\<rparr>) s = (Inr x, s1)"
      and 2: "clone_rows self cs s1 = (r, s')"
    from save_computed_only[OF 1] Cons.IH[OF 2] show ?thesis by (rule only_computed_trans)
  qed
qed

lemma clone_characteristics_from_only:
  "clone_characteristics_from self origin s = (r, s') \<Longrightarrow> only_computed s s'"
  unfolding clone_characteristics_from_def by (rule clone_rows_only)

lemma delta_stats_subject_only:
  assumes "delta_stats_subject self geounits combine subj changed s = (r, s')"
  shows "only_computed s s'"
proof (cases "aggregate s geounits subj")
  case None
  with assms show ?thesis by (simp add: delta_stats_subject_def only_computed_refl)
next
  case (Some a)
  show ?thesis
  proof (cases "a = 0")
    case True
    with Some assms show ?thesis by (simp add: delta_stats_subject_def only_computed_refl)
  next
    case False
    with Some assms obtain c where
      "and_then (save_computed c) (\<lambda>_ s'. (Inr True, s')) s = (r, s')"
      by (simp add: delta_stats_subject_def Let_def)
    from and_then_cases[OF this] show ?thesis
      by (auto dest: save_computed_only)
  qed
qed

lemma delta_stats_loop_only:
  "delta_stats_loop self geounits combine subjs changed s = (r, s') \<Longrightarrow> only_computed s s'"
proof (induction subjs arbitrary: changed s)
  case Nil
  then show ?case by (simp add: only_computed_refl)
next
  case (Cons subj rest)
  from Cons.prems have "and_then (delta_stats_subject self geounits combine subj changed)
       (\<lambda>changed'. delta_stats_loop self geounits combine rest changed') s = (r, s')" by simp
  from and_then_cases[OF this] show ?case
  proof (elim disjE exE conjE)
    fix e assume "delta_stats_subject self geounits combine subj changed s = (Inl e, s')"
    then show ?thesis by (rule delta_stats_subject_only)
  next
    fix x s1
    assume 1: "delta_stats_subject self geounits combine subj changed s = (Inr x, s1)"
      and 2: "delta_stats_loop self geounits combine rest x s1 = (r, s')"
    from delta_stats_subject_only[OF 1] Cons.IH[OF 2] show ?thesis by (rule only_computed_trans)
  qed
qed

lemma delta_stats_only: "delta_stats self geounits combine s = (r, s') \<Longrightarrow> only_computed s s'"
  unfolding delta_stats_def by (rule delta_stats_loop_only)

subsection \<open>Writes to the plans\<close>

lemma filter_replace_plan:
  assumes "plan.id p' = k"
  shows "filter (\<lambda>r. plan.id r = Some i) (map (\<lambda>r. if plan.id r = k then p' else r) ps)
         = map (\<lambda>r. if plan.id r = k then p' else r) (filter (\<lambda>r. plan.id r = Some i) ps)"
  using assms by (induction ps) auto

lemma plan_version_of_restamp:
  assumes f: "filter (\<lambda>p. plan.id p = Some j) (plans s) = p # ps"
  shows "plan_version_of (s\<lparr>plans := map (\<lambda>r. if plan.id r = Some j then p\<lparr>edited := t\<rparr> else r) (plans s)\<rparr>) i
         = plan_version_of s i"
proof -
  let ?f = "\<lambda>r. if plan.id r = Some j then p\<lparr>edited := t\<rparr> else r"
  from f have "p \<in> set (filter (\<lambda>p. plan.id p = Some j) (plans s))" by simp
  then have pj: "plan.id p = Some j" by simp
  then have fr: "filter (\<lambda>r. plan.id r = Some i) (map ?f (plans s)) = map ?f (filter (\<lambda>r. plan.id r = Some i) (plans s))"
    by (intro filter_replace_plan) simp
  show ?thesis
  proof (cases "i = j")
    case True
    with f fr pj show ?thesis by (simp add: plan_version_of_def)
  next
    case False
    have "map ?f (filter (\<lambda>r. plan.id r = Some i) (plans s)) = filter (\<lambda>r. plan.id r = Some i) (plans s)"
      using False by (intro map_idI) auto
    with fr show ?thesis by (simp add: plan_version_of_def)
  qed
qed

lemma update_plan_edited_time_step:
  assumes "update_plan_edited_time eng d s = (r, s')"
  shows "subjects s' = subjects s \<and> characteristics s' = characteristics s
         \<and> districts s' = districts s \<and> computedcharacteristics s' = computedcharacteristics s
         \<and> (\<forall>i. plan_version_of s' i = plan_version_of s i)"
proof (cases "filter (\<lambda>p. plan.id p = plan d \<and> plan d \<noteq> None) (plans s)")
  case Nil
  with assms show ?thesis by (simp add: update_plan_edited_time_def)
next
  case (Cons p ps)
  then have "p \<in> set (filter (\<lambda>p. plan.id p = plan d \<and> plan d \<noteq> None) (plans s))" by simp
  then have pin: "p \<in> set (plans s)" and pid: "plan.id p = plan d" and "plan d \<noteq> None" by auto
  then obtain j where j: "plan d = Some j" by auto
  with Cons have f: "filter (\<lambda>p. plan.id p = Some j) (plans s) = p # ps" by simp
  have w: "write_plan (p\<lparr>edited := now eng\<rparr>) s
           = (p\<lparr>edited := now eng\<rparr>, s\<lparr>plans := map (\<lambda>r. if plan.id r = Some j then p\<lparr>edited := now eng\<rparr> else r) (plans s)\<rparr>)"
  proof -
    from pin have "plan.id p \<in> plan.id ` set (plans s)" by (rule imageI)
    with pid j show ?thesis by (simp add: write_plan_def)
  qed
  from assms Cons have "s' = s\<lparr>plans := map (\<lambda>r. if plan.id r = Some j then p\<lparr>edited := now eng\<rparr> else r) (plans s)\<rparr>"
    by (simp add: update_plan_edited_time_def and_then_def save_plan_def w)
  then show ?thesis using plan_version_of_restamp[OF f] by simp
qed


subsection \<open>Snapshots\<close>

lemma set_district_id_result:
  assumes "set_district_id eng s d = Inr d'"
  shows "d' = d\<lparr>district_id := district_id d'\<rparr>
         \<and> (district_id d' = district_id d
            \<or> (\<forall>x\<in>set (districts s). plan x = plan d \<longrightarrow> district_id x < district_id d'))"
proof (cases "district_id d = 0")
  case False
  with assms show ?thesis by (simp add: set_district_id_def)
next
  case True
  let ?ids = "map district_id (filter (\<lambda>r. plan r = plan d) (districts s))"
  let ?new = "case max_of ?ids of None \<Rightarrow> 1 | Some m \<Rightarrow> if m \<noteq> 0 then m + 1 else 1"
  from assms True have d': "d' = d\<lparr>district_id := ?new\<rparr>"
    by (simp add: set_district_id_def Let_def split: if_splits)
  have "district_id x < ?new" if "x \<in> set (districts s)" "plan x = plan d" for x
  proof -
    from that have mem: "district_id x \<in> set ?ids" by simp
    then have "?ids \<noteq> []" by (metis empty_iff empty_set)
    then obtain m where m: "max_of ?ids = Some m" using max_of_None[of ?ids] by (cases "max_of ?ids") auto
    from max_of_upper[OF m mem] have "district_id x \<le> m" .
    with m show ?thesis by simp
  qed
  with d' show ?thesis by simp
qed

lemma save_district_insert:
  assumes new: "district.id d = None" and sv: "save_district eng d s = (r, s')"
  shows "subjects s' = subjects s \<and> characteristics s' = characteristics s
         \<and> computedcharacteristics s' = computedcharacteristics s
         \<and> (\<forall>i. plan_version_of s' i = plan_version_of s i)
         \<and> ((districts s' = districts s \<and> (\<forall>c. r \<noteq> Inr c))
            \<or> (\<exists>n. districts s' = districts s @ [n] \<and> copy_of (version d) s d n
                    \<and> (\<forall>c. r = Inr c \<longrightarrow> c = n)))"
proof (cases "set_district_id eng s d")
  case (Inl e)
  with sv show ?thesis by (auto simp: save_district_def)
next
  case (Inr d1)
  from set_district_id_result[OF Inr] have d1: "d1 = d\<lparr>district_id := district_id d1\<rparr>"
    and ids: "district_id d1 = district_id d
            \<or> (\<forall>x\<in>set (districts s). plan x = plan d \<longrightarrow> district_id x < district_id d1)"
    by blast+
  let ?k = "fresh_id (map district.id (districts s))"
  let ?n = "d1\<lparr>district.id := Some ?k\<rparr>"
  let ?s1 = "s\<lparr>districts := districts s @ [?n]\<rparr>"
  from new d1 have "district.id d1 = None" by (metis district.select_convs(1) district.surjective district.update_convs(2))
  then have w: "write_district d1 s = (?n, ?s1)" by (simp add: write_district_def Let_def)
  from sv Inr w have a: "and_then (update_plan_edited_time eng ?n) (\<lambda>_ s2. (Inr ?n, s2)) ?s1 = (r, s')"
    by (simp add: save_district_def)
  have "?n = d\<lparr>version := version d, district.id := Some ?k, district_id := district_id d1\<rparr>"
    by (subst (1) d1) simp
  with ids have c: "copy_of (version d) s d ?n"
    unfolding copy_of_def by blast
  from and_then_cases[OF a] obtain u where u: "update_plan_edited_time eng ?n ?s1 = (u, s')"
    and r: "(\<forall>c. r = Inr c \<longrightarrow> c = ?n)" by auto
  from update_plan_edited_time_step[OF u]
  have "subjects s' = subjects s \<and> characteristics s' = characteristics s
         \<and> computedcharacteristics s' = computedcharacteristics s
         \<and> (\<forall>i. plan_version_of s' i = plan_version_of ?s1 i)
         \<and> districts s' = districts s @ [?n]" by simp
  moreover have "\<And>i. plan_version_of ?s1 i = plan_version_of s i" by (simp add: plan_version_of_def)
  ultimately show ?thesis using c r by auto
qed


lemma copy_of_snapshot:
  "copy_of v s (d\<lparr>version := v, district.id := None\<rparr>) n \<Longrightarrow> copy_of v s d n"
  unfolding copy_of_def by auto

lemma snapshot_step:
  assumes "snapshot eng self d s = (r, s')"
  shows "subjects s' = subjects s \<and> characteristics s' = characteristics s
         \<and> (\<forall>i. plan_version_of s' i = plan_version_of s i)
         \<and> ((districts s' = districts s \<and> (\<forall>c. r \<noteq> Inr c))
            \<or> (\<exists>n. districts s' = districts s @ [n] \<and> copy_of (plan.version self + 1) s d n
                    \<and> (\<forall>c. r = Inr c \<longrightarrow> c = n)))"
proof -
  let ?d = "d\<lparr>version := plan.version self + 1, district.id := None\<rparr>"
  from assms have a: "and_then (save_district eng ?d)
       (\<lambda>district_copy. and_then (clone_characteristics_from district_copy d) (\<lambda>_ s. (Inr district_copy, s))) s
       = (r, s')" by (simp add: snapshot_def)
  have new: "district.id ?d = None" by simp
  from and_then_cases[OF a] show ?thesis
  proof (elim disjE exE conjE)
    fix e assume sv: "save_district eng ?d s = (Inl e, s')" and r: "r = Inl e"
    from save_district_insert[OF new sv] r show ?thesis
      by (auto dest: copy_of_snapshot)
  next
    fix c s1
    assume sv: "save_district eng ?d s = (Inr c, s1)"
      and cl: "and_then (clone_characteristics_from c d) (\<lambda>_ s. (Inr c, s)) s1 = (r, s')"
    from and_then_cases[OF cl] obtain u where u: "clone_characteristics_from c d s1 = (u, s')"
      and r: "\<forall>c'. r = Inr c' \<longrightarrow> c' = c" by auto
    from clone_characteristics_from_only[OF u] have oc: "only_computed s1 s'" .
    from save_district_insert[OF new sv]
    have 1: "subjects s1 = subjects s \<and> characteristics s1 = characteristics s
         \<and> (\<forall>i. plan_version_of s1 i = plan_version_of s i)"
      and 2: "\<exists>n. districts s1 = districts s @ [n] \<and> copy_of (plan.version self + 1) s ?d n \<and> c = n"
      by auto
    from 2 obtain n where n: "districts s1 = districts s @ [n]" "copy_of (plan.version self + 1) s d n" "c = n"
      by (auto dest: copy_of_snapshot)
    from oc have "plans s' = plans s1" by (simp add: only_computed_def)
    then have "\<And>i. plan_version_of s' i = plan_version_of s1 i" by (simp add: plan_version_of_def)
    with 1 oc n r show ?thesis by (auto simp: only_computed_def)
  qed
qed

lemma copy_of_version: "copy_of v s d n \<Longrightarrow> version n = v"
  unfolding copy_of_def by auto

lemma snapshot_edit_step:
  assumes "snapshot eng self d s = (r, s')"
  shows "edit_step (plan.version self + 1) s s'"
  using snapshot_step[OF assms] unfolding edit_step_def
  by (auto dest: copy_of_version)

lemma carry_forward_edit_step:
  assumes "carry_forward eng self d s = (r, s')"
  shows "edit_step (plan.version self + 1) s s'"
proof (cases "is_latest_version s d")
  case (Inl e)
  with assms show ?thesis by (simp add: carry_forward_def edit_step_refl)
next
  case (Inr latest)
  show ?thesis
  proof (cases latest)
    case True
    with Inr assms show ?thesis by (simp add: carry_forward_def edit_step_refl)
  next
    case False
    with Inr assms have "and_then (snapshot eng self d) (\<lambda>_ s'. (Inr 1, s')) s = (r, s')"
      by (simp add: carry_forward_def)
    from and_then_cases[OF this] show ?thesis by (auto dest: snapshot_edit_step)
  qed
qed

lemma remove_from_edit_step:
  assumes "remove_from eng self geounit_ids geolevel incremental d s = (r, s')"
  shows "edit_step (plan.version self + 1) s s'"
proof (cases "get_mixed_geounits eng geounit_ids geolevel (geom d) True")
  case (Inl e)
  with assms show ?thesis by (simp add: remove_from_def edit_step_refl)
next
  case (Inr geounits)
  show ?thesis
  proof (cases "cut_district eng d incremental")
    case (Inl e)
    with Inr assms show ?thesis by (simp add: remove_from_def edit_step_refl)
  next
    case (Inr d')
    with \<open>get_mixed_geounits eng geounit_ids geolevel (geom d) True = Inr geounits\<close> assms
    have a: "and_then (snapshot eng self d') (\<lambda>district_copy.
                 and_then (delta_stats district_copy geounits False) (\<lambda>changed s'.
                   (Inr (if changed then 1 else 0), s'))) s = (r, s')"
      by (simp add: remove_from_def)
    from and_then_cases[OF a] show ?thesis
    proof (elim disjE exE conjE)
      fix e assume "snapshot eng self d' s = (Inl e, s')"
      then show ?thesis by (rule snapshot_edit_step)
    next
      fix c s1
      assume sn: "snapshot eng self d' s = (Inr c, s1)"
        and ds: "and_then (delta_stats c geounits False) (\<lambda>changed s'. (Inr (if changed then 1 else 0), s')) s1 = (r, s')"
      from and_then_cases[OF ds] obtain u where "delta_stats c geounits False s1 = (u, s')" by auto
      then have "edit_step (plan.version self + 1) s1 s'"
        by (intro only_computed_step delta_stats_only)
      with snapshot_edit_step[OF sn] show ?thesis by (rule edit_step_trans)
    qed
  qed
qed

lemma add_geounits_loop_edit_step:
  "add_geounits_loop eng self districtid geounit_ids geolevel incremental ds target fixed s = (r, s')
   \<Longrightarrow> edit_step (plan.version self + 1) s s'"
proof (induction ds arbitrary: target fixed s)
  case Nil
  then show ?case by (simp add: edit_step_refl)
next
  case (Cons d rest)
  show ?case
  proof (cases "int (district_id d) = districtid")
    case True
    with Cons.prems have "add_geounits_loop eng self districtid geounit_ids geolevel incremental rest (Some d) fixed s = (r, s')"
      by simp
    then show ?thesis by (rule Cons.IH)
  next
    case False
    show ?thesis
    proof (cases "touches_selection eng d incremental")
      case (Inl e)
      with False Cons.prems show ?thesis by (simp add: edit_step_refl)
    next
      case (Inr touched)
      let ?op = "if touched then remove_from eng self geounit_ids geolevel incremental d
                 else carry_forward eng self d"
      have op: "edit_step (plan.version self + 1) s s1" if "?op s = (x, s1)" for x s1
        using that by (cases touched) (auto dest: remove_from_edit_step carry_forward_edit_step)
      from False Inr Cons.prems have a: "and_then ?op
               (\<lambda>n. add_geounits_loop eng self districtid geounit_ids geolevel incremental rest target
                      (fixed + n)) s = (r, s')" by simp
      from and_then_cases[OF a] show ?thesis
      proof (elim disjE exE conjE)
        fix e assume "?op s = (Inl e, s')"
        then show ?thesis by (rule op)
      next
        fix n s1
        assume 1: "?op s = (Inr n, s1)"
          and 2: "add_geounits_loop eng self districtid geounit_ids geolevel incremental rest target (fixed + n) s1 = (r, s')"
        from op[OF 1] Cons.IH[OF 2] show ?thesis by (rule edit_step_trans)
      qed
    qed
  qed
qed

lemma add_geounits_loop_target:
  "add_geounits_loop eng self districtid geounit_ids geolevel incremental ds target fixed s = (Inr (t, n), s')
   \<Longrightarrow> \<forall>d\<in>set ds. int (district_id d) \<noteq> districtid \<Longrightarrow> t = target"
proof (induction ds arbitrary: fixed s)
  case Nil
  then show ?case by simp
next
  case (Cons d rest)
  from Cons.prems(2) have no: "int (district_id d) \<noteq> districtid" and rest: "\<forall>d\<in>set rest. int (district_id d) \<noteq> districtid"
    by simp_all
  show ?case
  proof (cases "touches_selection eng d incremental")
    case (Inl e)
    with no Cons.prems(1) show ?thesis by simp
  next
    case (Inr touched)
    with no Cons.prems(1) have a: "and_then (if touched then remove_from eng self geounit_ids geolevel incremental d
                 else carry_forward eng self d)
               (\<lambda>n. add_geounits_loop eng self districtid geounit_ids geolevel incremental rest target
                      (fixed + n)) s = (Inr (t, n), s')" by simp
    from and_then_Inr[OF a] obtain m s1 where
      "add_geounits_loop eng self districtid geounit_ids geolevel incremental rest target (fixed + m) s1 = (Inr (t, n), s')"
      by blast
    from Cons.IH[OF this rest] show ?thesis .
  qed
qed

subsection \<open>An edit whose target is not among the districts\<close>

lemma edit_db1_at_0:
  "get_districts_at_version edit_db1 plan1 0
     = [stored 1 1 ''Unassigned'' 0 (Some (region [1, 2, 3, 4])), stored 2 2 ''District 1'' 0 None]"
  by (simp add: get_districts_at_version_def districts_at_version_def district_set_def sortVer_def
      plan1_def example_plan_def stored_def edit_db1_def)

text \<open>
  Claim C10. When no district resolved at the requested version has the requested
  \<open>district_id\<close>, \<^verbatim>\<open>add_geounits\<close> is its loop over the districts followed by the read of
  the unbound variable \<open>target\<close>: it raises what the loop raises, or \<open>UnboundLocalError\<close>
  when the loop returns. The database keeps what the loop wrote, snapshots of the other
  districts at the new version, and the stored version of every plan is as before.
\<close>

theorem add_geounits_unbound_target:
  assumes "\<forall>d\<in>set (get_districts_at_version s self v). int (district_id d) \<noteq> districtid"
  shows "\<exists>r s'. add_geounits_loop eng self districtid geounit_ids geolevel (unionagg eng geounit_ids)
                  (get_districts_at_version s self v) None 0 s = (r, s')
           \<and> add_geounits eng self districtid geounit_ids geolevel v s
               = ((case r of Inl e \<Rightarrow> Inl e | Inr _ \<Rightarrow> Inl UnboundLocalError), s')
           \<and> edit_step (plan.version self + 1) s s'"
proof -
  let ?loop = "add_geounits_loop eng self districtid geounit_ids geolevel (unionagg eng geounit_ids)
                  (get_districts_at_version s self v) None 0 s"
  obtain r s' where l: "?loop = (r, s')" by (cases ?loop)
  from l have step: "edit_step (plan.version self + 1) s s'" by (rule add_geounits_loop_edit_step)
  have "add_geounits eng self districtid geounit_ids geolevel v s
               = ((case r of Inl e \<Rightarrow> Inl e | Inr _ \<Rightarrow> Inl UnboundLocalError), s')"
  proof (cases r)
    case (Inl e)
    with l show ?thesis by (simp add: add_geounits_def and_then_def)
  next
    case (Inr p)
    obtain t n where p: "p = (t, n)" by (cases p)
    from l Inr p add_geounits_loop_target[OF _ assms] have "t = None" by blast
    with l Inr p show ?thesis by (simp add: add_geounits_def and_then_def)
  qed
  with l step show ?thesis by blast
qed

theorem add_geounits_unbound_target_witness:
  "add_geounits example_engine plan1 7 [1] 2 0 edit_db1 = (Inl UnboundLocalError, unbound_db)
   \<and> plan_version_of unbound_db 1 = Some 1
   \<and> districts unbound_db \<noteq> districts edit_db1"
proof -
  have absent: "\<forall>d\<in>set (get_districts_at_version edit_db1 plan1 0). int (district_id d) \<noteq> 7"
    by (simp add: edit_db1_at_0 stored_def)
  have loop: "add_geounits_loop example_engine plan1 7 [1] 2 (unionagg example_engine [1])
                  (get_districts_at_version edit_db1 plan1 0) None 0 edit_db1 = (Inr (None, 2), unbound_db)"
    unfolding edit_db1_at_0 by code_simp
  from add_geounits_unbound_target[OF absent, of example_engine "[1]" 2] loop
  have "add_geounits example_engine plan1 7 [1] 2 0 edit_db1 = (Inl UnboundLocalError, unbound_db)"
    by auto
  moreover have "plan_version_of unbound_db 1 = Some 1" by code_simp
  moreover have "districts unbound_db \<noteq> districts edit_db1"
    by (simp add: unbound_db_def)
  ultimately show ?thesis by simp
qed

subsection \<open>The version of a plan\<close>



lemma district_set_plan: "d \<in> set (district_set s self) \<Longrightarrow> plan d = plan.id self \<and> plan d \<noteq> None \<and> d \<in> set (districts s)"
  by (cases "plan.id self") (auto simp: district_set_def)

lemma get_districts_at_version_subset:
  "d \<in> set (get_districts_at_version s self v) \<Longrightarrow> d \<in> set (district_set s self)"
  using get_districts_at_version_latest[of s self v] by blast








lemma edit_db0_at_0:
  "get_districts_at_version edit_db0 plan0 0
     = [stored 1 1 ''Unassigned'' 0 (Some (region [1, 2, 3, 4])), stored 2 2 ''District 1'' 0 None]"
  by (simp add: get_districts_at_version_def districts_at_version_def district_set_def sortVer_def
      plan0_def example_plan_def stored_def edit_db0_def)


lemma first_edit:
  "add_geounits example_engine plan0 2 [1, 2] 2 0 edit_db0 = (Inr (2, plan1), edit_db1)"
  unfolding add_geounits_def edit_db0_at_0 by code_simp




subsection \<open>The count an edit returns\<close>

lemma has_stats_kept:
  "subjects s' = subjects s \<Longrightarrow> characteristics s' = characteristics s \<Longrightarrow> has_stats s' u = has_stats s u"
  by (simp add: has_stats_def sum_over_def aggregate_def)

lemma sum_over_kept:
  "characteristics s' = characteristics s \<Longrightarrow> sum_over s' u subj = sum_over s u subj"
  by (simp add: sum_over_def aggregate_def)

lemma delta_stats_subject_changed:
  assumes "delta_stats_subject self geounits combine subj changed s = (Inr ch, s')"
  shows "ch = (changed \<or> sum_over s geounits subj \<noteq> 0)"
proof (cases "aggregate s geounits subj")
  case None
  with assms show ?thesis by (simp add: delta_stats_subject_def sum_over_def)
next
  case (Some a)
  show ?thesis
  proof (cases "a = 0")
    case True
    with Some assms show ?thesis by (simp add: delta_stats_subject_def sum_over_def)
  next
    case False
    with Some assms obtain c where
      "and_then (save_computed c) (\<lambda>_ s'. (Inr True, s')) s = (Inr ch, s')"
      by (simp add: delta_stats_subject_def Let_def)
    from and_then_Inr[OF this] have "ch = True" by auto
    with Some False show ?thesis by (simp add: sum_over_def)
  qed
qed

lemma delta_stats_loop_changed:
  "delta_stats_loop self geounits combine subjs changed s = (Inr ch, s')
   \<Longrightarrow> ch = (changed \<or> (\<exists>subj\<in>set subjs. sum_over s geounits subj \<noteq> 0))"
proof (induction subjs arbitrary: changed s)
  case Nil
  then show ?case by simp
next
  case (Cons subj rest)
  from Cons.prems have "and_then (delta_stats_subject self geounits combine subj changed)
       (\<lambda>changed'. delta_stats_loop self geounits combine rest changed') s = (Inr ch, s')" by simp
  from and_then_Inr[OF this] obtain c1 s1 where
    1: "delta_stats_subject self geounits combine subj changed s = (Inr c1, s1)"
    and 2: "delta_stats_loop self geounits combine rest c1 s1 = (Inr ch, s')" by blast
  from delta_stats_subject_only[OF 1] have "characteristics s1 = characteristics s"
    by (simp add: only_computed_def)
  then have k: "\<And>x. sum_over s1 geounits x = sum_over s geounits x" by (rule sum_over_kept)
  from Cons.IH[OF 2] delta_stats_subject_changed[OF 1] k show ?case by auto
qed

lemma delta_stats_changed:
  "delta_stats self geounits combine s = (Inr ch, s') \<Longrightarrow> ch = has_stats s geounits"
  unfolding delta_stats_def has_stats_def by (drule delta_stats_loop_changed) simp

lemma copy_of_fields:
  assumes "copy_of v s d n"
  shows "version n = v" "plan n = plan d" "name n = name d" "geom n = geom d" "simple n = simple d"
    "district.id n = Some (fresh_id (map district.id (districts s)))"
  using assms unfolding copy_of_def by auto

lemma is_latest_version_cong:
  assumes "\<forall>i. plan_version_of s' i = plan_version_of s i"
    and "map version (filter (\<lambda>d. plan d = plan r \<and> district_id d = district_id r) (districts s'))
         = map version (filter (\<lambda>d. plan d = plan r \<and> district_id d = district_id r) (districts s))"
  shows "is_latest_version s' r = is_latest_version s r"
proof (cases "plan r")
  case None
  then show ?thesis by (simp add: is_latest_version_def)
next
  case (Some i)
  have ex: "(filter (\<lambda>p. plan.id p = Some i) (plans s') = []) = (filter (\<lambda>p. plan.id p = Some i) (plans s) = [])"
    using assms(1)[rule_format, of i] by (auto simp: plan_version_of_def split: list.splits)
  have q: "max_of (map version (filter (\<lambda>d. district_id d = district_id r) (district_set t p)))
           = max_of (map version (filter (\<lambda>d. plan d = plan r \<and> district_id d = district_id r) (districts t)))"
    if "plan.id p = Some i" for p t
    using that Some by (intro max_of_set) (auto simp: district_set_def)
  show ?thesis
  proof (cases "filter (\<lambda>p. plan.id p = Some i) (plans s)")
    case Nil
    with ex Some show ?thesis by (simp add: is_latest_version_def)
  next
    case (Cons p ps)
    then have "p \<in> set (filter (\<lambda>p. plan.id p = Some i) (plans s))" by simp
    then have p: "plan.id p = Some i" by simp
    from Cons ex obtain p' ps' where c': "filter (\<lambda>p. plan.id p = Some i) (plans s') = p' # ps'"
      by (cases "filter (\<lambda>p. plan.id p = Some i) (plans s')") auto
    then have "p' \<in> set (filter (\<lambda>p. plan.id p = Some i) (plans s'))" by simp
    then have p': "plan.id p' = Some i" by simp
    show ?thesis
      using Some Cons c' assms(2) by (simp add: is_latest_version_def Let_def q[OF p] q[OF p'])
  qed
qed

lemma snapshot_keeps_latest:
  assumes sn: "snapshot eng self d s = (x, s')"
    and r: "r \<in> set (districts s)" and ne: "district_id r \<noteq> district_id d"
  shows "is_latest_version s' r = is_latest_version s r"
proof (rule is_latest_version_cong)
  from snapshot_step[OF sn] show "\<forall>i. plan_version_of s' i = plan_version_of s i" by blast
next
  let ?P = "\<lambda>d. plan d = plan r \<and> district_id d = district_id r"
  from snapshot_step[OF sn] consider "districts s' = districts s"
    | n where "districts s' = districts s @ [n]" "copy_of (plan.version self + 1) s d n" by blast
  then show "map version (filter ?P (districts s')) = map version (filter ?P (districts s))"
  proof cases
    case 1
    then show ?thesis by simp
  next
    case 2
    from 2(2) have pl: "plan n = plan d" by (rule copy_of_fields)
    from 2(2) have "district_id n = district_id d
        \<or> (\<forall>x\<in>set (districts s). plan x = plan d \<longrightarrow> district_id x < district_id n)"
      unfolding copy_of_def by auto
    then have "\<not> ?P n"
    proof
      assume "district_id n = district_id d"
      with ne show ?thesis by simp
    next
      assume a: "\<forall>x\<in>set (districts s). plan x = plan d \<longrightarrow> district_id x < district_id n"
      show ?thesis
      proof
        assume "?P n"
        with pl have "plan r = plan d" "district_id n = district_id r" by simp_all
        with a r show False by fastforce
      qed
    qed
    with 2(1) show ?thesis by simp
  qed
qed


lemma only_computed_keeps_latest:
  assumes "only_computed s s'"
  shows "is_latest_version s' r = is_latest_version s r"
proof (rule is_latest_version_cong)
  from assms have p: "plans s' = plans s" and d: "districts s' = districts s"
    by (simp_all add: only_computed_def)
  from p show "\<forall>i. plan_version_of s' i = plan_version_of s i" by (simp add: plan_version_of_def)
  from d show "map version (filter (\<lambda>d. plan d = plan r \<and> district_id d = district_id r) (districts s'))
         = map version (filter (\<lambda>d. plan d = plan r \<and> district_id d = district_id r) (districts s))"
    by simp
qed

lemma carry_forward_count:
  assumes "carry_forward eng self d s = (Inr n, s')"
  shows "n = (if is_latest_version s d = Inr False then 1 else 0)"
proof (cases "is_latest_version s d")
  case (Inl e)
  with assms show ?thesis by (simp add: carry_forward_def)
next
  case (Inr latest)
  show ?thesis
  proof (cases latest)
    case True
    with Inr assms show ?thesis by (simp add: carry_forward_def)
  next
    case False
    with Inr assms have "and_then (snapshot eng self d) (\<lambda>_ s'. (Inr 1, s')) s = (Inr n, s')"
      by (simp add: carry_forward_def)
    from and_then_Inr[OF this] have "n = 1" by auto
    with Inr False show ?thesis by simp
  qed
qed

lemma carry_forward_keeps_latest:
  assumes cf: "carry_forward eng self d s = (x, s')"
    and r: "r \<in> set (districts s)" and ne: "district_id r \<noteq> district_id d"
  shows "is_latest_version s' r = is_latest_version s r"
proof (cases "is_latest_version s d")
  case (Inl e)
  with cf show ?thesis by (simp add: carry_forward_def)
next
  case (Inr latest)
  show ?thesis
  proof (cases latest)
    case True
    with Inr cf show ?thesis by (simp add: carry_forward_def)
  next
    case False
    with Inr cf have "and_then (snapshot eng self d) (\<lambda>_ s'. (Inr 1, s')) s = (x, s')"
      by (simp add: carry_forward_def)
    from and_then_cases[OF this] obtain y where "snapshot eng self d s = (y, s')" by auto
    from snapshot_keeps_latest[OF this r ne] show ?thesis .
  qed
qed

lemma cut_district_fields:
  assumes "cut_district eng d incremental = Inr d'"
  shows "district_id d' = district_id d \<and> plan d' = plan d \<and> name d' = name d
         \<and> version d' = version d \<and> district.id d' = district.id d"
proof -
  from assms obtain g s where "d' = d\<lparr>geom := g, simple := s\<rparr>"
    by (auto simp: cut_district_def on_success_def split: sum.splits option.splits if_splits)
  then show ?thesis by simp
qed

lemma remove_from_count:
  assumes "remove_from eng self geounit_ids geolevel incremental d s = (Inr n, s')"
  shows "\<exists>units. get_mixed_geounits eng geounit_ids geolevel (geom d) True = Inr units
                 \<and> n = (if has_stats s units then 1 else 0)"
proof (cases "get_mixed_geounits eng geounit_ids geolevel (geom d) True")
  case (Inl e)
  with assms show ?thesis by (simp add: remove_from_def)
next
  case (Inr geounits)
  show ?thesis
  proof (cases "cut_district eng d incremental")
    case (Inl e)
    with Inr assms show ?thesis by (simp add: remove_from_def)
  next
    case (Inr d')
    with \<open>get_mixed_geounits eng geounit_ids geolevel (geom d) True = Inr geounits\<close> assms
    have a: "and_then (snapshot eng self d') (\<lambda>district_copy.
                 and_then (delta_stats district_copy geounits False) (\<lambda>changed s'.
                   (Inr (if changed then 1 else 0), s'))) s = (Inr n, s')"
      by (simp add: remove_from_def)
    from and_then_Inr[OF a] obtain c s1 where sn: "snapshot eng self d' s = (Inr c, s1)"
      and b: "and_then (delta_stats c geounits False) (\<lambda>changed s'.
                   (Inr (if changed then 1 else 0), s')) s1 = (Inr n, s')" by blast
    from and_then_Inr[OF b] obtain ch s2 where ds: "delta_stats c geounits False s1 = (Inr ch, s2)"
      and n: "n = (if ch then 1 else 0)" by auto
    from snapshot_step[OF sn] have "has_stats s1 geounits = has_stats s geounits"
      by (intro has_stats_kept) simp_all
    with delta_stats_changed[OF ds] n
    have "n = (if has_stats s geounits then 1 else 0)" by simp
    with \<open>get_mixed_geounits eng geounit_ids geolevel (geom d) True = Inr geounits\<close> show ?thesis by simp
  qed
qed

lemma remove_from_keeps_latest:
  assumes rf: "remove_from eng self geounit_ids geolevel incremental d s = (x, s')"
    and r: "r \<in> set (districts s)" and ne: "district_id r \<noteq> district_id d"
  shows "is_latest_version s' r = is_latest_version s r"
proof (cases "get_mixed_geounits eng geounit_ids geolevel (geom d) True")
  case (Inl e)
  with rf show ?thesis by (simp add: remove_from_def)
next
  case (Inr geounits)
  show ?thesis
  proof (cases "cut_district eng d incremental")
    case (Inl e)
    with Inr rf show ?thesis by (simp add: remove_from_def)
  next
    case (Inr d')
    from cut_district_fields[OF Inr] ne have ne': "district_id r \<noteq> district_id d'" by simp
    from Inr \<open>get_mixed_geounits eng geounit_ids geolevel (geom d) True = Inr geounits\<close> rf
    have a: "and_then (snapshot eng self d') (\<lambda>district_copy.
                 and_then (delta_stats district_copy geounits False) (\<lambda>changed s'.
                   (Inr (if changed then 1 else 0), s'))) s = (x, s')"
      by (simp add: remove_from_def)
    from and_then_cases[OF a] show ?thesis
    proof (elim disjE exE conjE)
      fix e assume "snapshot eng self d' s = (Inl e, s')"
      from snapshot_keeps_latest[OF this r ne'] show ?thesis .
    next
      fix c s1
      assume sn: "snapshot eng self d' s = (Inr c, s1)"
        and ds: "and_then (delta_stats c geounits False) (\<lambda>changed s'. (Inr (if changed then 1 else 0), s')) s1 = (x, s')"
      from and_then_cases[OF ds] obtain u where "delta_stats c geounits False s1 = (u, s')" by auto
      then have "only_computed s1 s'" by (rule delta_stats_only)
      then have "is_latest_version s' r = is_latest_version s1 r" by (rule only_computed_keeps_latest)
      with snapshot_keeps_latest[OF sn r ne'] show ?thesis by simp
    qed
  qed
qed

lemma edit_step_districts: "edit_step v s s' \<Longrightarrow> set (districts s) \<subseteq> set (districts s')"
  by (auto simp: edit_step_def)

lemma add_geounits_loop_count:
  assumes "add_geounits_loop eng self districtid geounit_ids geolevel incremental ds target fixed s = (Inr (t, n), s')"
    and "distinct (map district_id ds)" and "set ds \<subseteq> set (districts s)"
  shows "n = fixed + length (filter (counted eng s geounit_ids geolevel incremental)
                               (filter (\<lambda>d. int (district_id d) \<noteq> districtid) ds))"
  using assms
proof (induction ds arbitrary: target fixed s)
  case Nil
  then show ?case by simp
next
  case (Cons d rest)
  from Cons.prems(2) have dist: "distinct (map district_id rest)"
    and notin: "district_id d \<notin> district_id ` set rest" by simp_all
  from notin have fresh: "\<forall>r\<in>set rest. district_id r \<noteq> district_id d"
    by (metis imageI)
  from Cons.prems(3) have sub: "set rest \<subseteq> set (districts s)" by simp
  show ?case
  proof (cases "int (district_id d) = districtid")
    case True
    with Cons.prems(1) have "add_geounits_loop eng self districtid geounit_ids geolevel incremental rest (Some d) fixed s = (Inr (t, n), s')"
      by simp
    from Cons.IH[OF this dist sub] True show ?thesis by simp
  next
    case False
    show ?thesis
    proof (cases "touches_selection eng d incremental")
      case (Inl e)
      with False Cons.prems(1) show ?thesis by simp
    next
      case (Inr touched)
      let ?op = "if touched then remove_from eng self geounit_ids geolevel incremental d
                 else carry_forward eng self d"
      from False Inr Cons.prems(1) have a: "and_then ?op
               (\<lambda>n. add_geounits_loop eng self districtid geounit_ids geolevel incremental rest target
                      (fixed + n)) s = (Inr (t, n), s')" by simp
      from and_then_Inr[OF a] obtain m s1 where
        op: "?op s = (Inr m, s1)"
        and loop: "add_geounits_loop eng self districtid geounit_ids geolevel incremental rest target (fixed + m) s1 = (Inr (t, n), s')"
        by blast
      have m: "m = (if counted eng s geounit_ids geolevel incremental d then 1 else 0)"
      proof (cases touched)
        case True
        with op have "remove_from eng self geounit_ids geolevel incremental d s = (Inr m, s1)" by simp
        from remove_from_count[OF this] Inr True show ?thesis by (auto simp: counted_def)
      next
        case False
        with op have "carry_forward eng self d s = (Inr m, s1)" by simp
        from carry_forward_count[OF this] Inr False show ?thesis by (auto simp: counted_def)
      qed
      have step: "edit_step (plan.version self + 1) s s1"
        using op by (cases touched) (auto dest: remove_from_edit_step carry_forward_edit_step)
      with sub have sub1: "set rest \<subseteq> set (districts s1)" by (auto dest: edit_step_districts)
      from step have hs: "\<And>u. has_stats s1 u = has_stats s u"
        by (intro has_stats_kept) (simp_all add: edit_step_def)
      have lat: "is_latest_version s1 r = is_latest_version s r" if "r \<in> set rest" for r
      proof -
        from that sub fresh have r: "r \<in> set (districts s)" and ne: "district_id r \<noteq> district_id d" by auto
        show ?thesis
          using op r ne by (cases touched) (auto dest: remove_from_keeps_latest carry_forward_keeps_latest)
      qed
      have "filter (counted eng s1 geounit_ids geolevel incremental) (filter (\<lambda>d. int (district_id d) \<noteq> districtid) rest)
            = filter (counted eng s geounit_ids geolevel incremental) (filter (\<lambda>d. int (district_id d) \<noteq> districtid) rest)"
        by (rule filter_cong) (auto simp: counted_def hs lat)
      with Cons.IH[OF loop dist sub1] m False show ?thesis by simp
    qed
  qed
qed


lemma add_to_target_count:
  assumes "add_to_target eng self geounit_ids geolevel incremental t s = (Inr n, s')"
  shows "n = (if target_counted eng s geounit_ids geolevel incremental t then 1 else 0)"
proof (cases "get_mixed_geounits eng geounit_ids geolevel (geom t) False")
  case (Inl e)
  with assms show ?thesis by (simp add: add_to_target_def)
next
  case (Inr geounits)
  note units = this
  show ?thesis
  proof (cases "grow_target eng t incremental")
    case (Inl e)
    with units assms show ?thesis by (simp add: add_to_target_def)
  next
    case (Inr t')
    with units assms
    have a: "and_then (snapshot eng self t') (\<lambda>target_copy.
                 if truthy_opt (geom target_copy)
                 then and_then (delta_stats target_copy geounits True) (\<lambda>changed s'.
                        (Inr (if changed then 1 else 0), s'))
                 else (\<lambda>s'. (Inr 0, s'))) s = (Inr n, s')"
      by (simp add: add_to_target_def)
    from and_then_Inr[OF a] obtain c s1 where sn: "snapshot eng self t' s = (Inr c, s1)"
      and b: "(if truthy_opt (geom c)
                 then and_then (delta_stats c geounits True) (\<lambda>changed s'.
                        (Inr (if changed then 1 else 0), s'))
                 else (\<lambda>s'. (Inr 0, s'))) s1 = (Inr n, s')" by blast
    from snapshot_step[OF sn] have "copy_of (plan.version self + 1) s t' c" by auto
    then have g: "geom c = geom t'" by (rule copy_of_fields)
    from snapshot_step[OF sn] have hs: "has_stats s1 geounits = has_stats s geounits"
      by (intro has_stats_kept) simp_all
    have "n = (if truthy_opt (geom t') \<and> has_stats s geounits then 1 else 0)"
    proof (cases "truthy_opt (geom c)")
      case True
      with b have "and_then (delta_stats c geounits True) (\<lambda>changed s'.
                        (Inr (if changed then 1 else 0), s')) s1 = (Inr n, s')" by simp
      from and_then_Inr[OF this] obtain ch s2 where ds: "delta_stats c geounits True s1 = (Inr ch, s2)"
        and n: "n = (if ch then 1 else 0)" by auto
      from delta_stats_changed[OF ds] n hs True g show ?thesis by simp
    next
      case False
      with b g show ?thesis by simp
    qed
    with units Inr show ?thesis by (simp add: target_counted_def)
  qed
qed

lemma add_geounits_loop_target_id:
  "add_geounits_loop eng self districtid geounit_ids geolevel incremental ds target fixed s = (Inr (Some t, n), s')
   \<Longrightarrow> target = Some t \<or> (t \<in> set ds \<and> int (district_id t) = districtid)"
proof (induction ds arbitrary: target fixed s)
  case Nil
  then show ?case by simp
next
  case (Cons d rest)
  show ?case
  proof (cases "int (district_id d) = districtid")
    case True
    with Cons.prems have "add_geounits_loop eng self districtid geounit_ids geolevel incremental rest (Some d) fixed s = (Inr (Some t, n), s')"
      by simp
    from Cons.IH[OF this] True show ?thesis by auto
  next
    case False
    show ?thesis
    proof (cases "touches_selection eng d incremental")
      case (Inl e)
      with False Cons.prems show ?thesis by simp
    next
      case (Inr touched)
      with False Cons.prems have a: "and_then (if touched then remove_from eng self geounit_ids geolevel incremental d
                 else carry_forward eng self d)
               (\<lambda>n. add_geounits_loop eng self districtid geounit_ids geolevel incremental rest target
                      (fixed + n)) s = (Inr (Some t, n), s')" by simp
      from and_then_Inr[OF a] obtain m s1 where
        "add_geounits_loop eng self districtid geounit_ids geolevel incremental rest target (fixed + m) s1 = (Inr (Some t, n), s')"
        by blast
      from Cons.IH[OF this] show ?thesis by auto
    qed
  qed
qed

lemma target_counted_kept:
  assumes "edit_step v s s'"
  shows "target_counted eng s' geounit_ids geolevel incremental t
         = target_counted eng s geounit_ids geolevel incremental t"
proof -
  from assms have "\<And>u. has_stats s' u = has_stats s u"
    by (intro has_stats_kept) (simp_all add: edit_step_def)
  then show ?thesis by (simp add: target_counted_def)
qed

text \<open>
  Claim C2, as the code has it. The count an edit returns is the number of districts
  other than the target that were carried forward (copied unchanged because they were
  not the latest version) or that the selection touches and whose removed geounits have
  a non-zero sum for some subject, plus one when the new geometry of the target is
  present and the added geounits have a non-zero sum for some subject.
\<close>

theorem add_geounits_count:
  assumes "add_geounits eng self districtid geounit_ids geolevel v s = (Inr (fixed, self'), s')"
  shows "\<exists>t\<in>set (get_districts_at_version s self v).
           int (district_id t) = districtid
           \<and> fixed = length (filter (counted eng s geounit_ids geolevel (unionagg eng geounit_ids))
                               (filter (\<lambda>d. int (district_id d) \<noteq> districtid)
                                  (get_districts_at_version s self v)))
                     + (if target_counted eng s geounit_ids geolevel (unionagg eng geounit_ids) t
                        then 1 else 0)"
proof -
  let ?inc = "unionagg eng geounit_ids"
  let ?ds = "get_districts_at_version s self v"
  from assms have a: "and_then (add_geounits_loop eng self districtid geounit_ids geolevel ?inc ?ds None 0)
           (\<lambda>(target, fixed).
              case target of
                None \<Rightarrow> (\<lambda>s'. (Inl UnboundLocalError, s'))
              | Some t \<Rightarrow>
                  and_then (add_to_target eng self geounit_ids geolevel ?inc t) (\<lambda>n.
                    and_then (save_plan eng (self\<lparr>plan.version := plan.version self + 1\<rparr>)) (\<lambda>self' s'.
                      (Inr (fixed + n, self'), s')))) s = (Inr (fixed, self'), s')"
    by (simp add: add_geounits_def Let_def)
  from and_then_Inr[OF a] obtain x s1 where
    loop: "add_geounits_loop eng self districtid geounit_ids geolevel ?inc ?ds None 0 s = (Inr x, s1)"
    and rest: "(case x of (target, fixed) \<Rightarrow>
              case target of
                None \<Rightarrow> (\<lambda>s'. (Inl UnboundLocalError, s'))
              | Some t \<Rightarrow>
                  and_then (add_to_target eng self geounit_ids geolevel ?inc t) (\<lambda>n.
                    and_then (save_plan eng (self\<lparr>plan.version := plan.version self + 1\<rparr>)) (\<lambda>self' s'.
                      (Inr (fixed + n, self'), s')))) s1 = (Inr (fixed, self'), s')"
    by blast
  obtain target f where x: "x = (target, f)" by (cases x)
  from rest x obtain t where t: "target = Some t" by (cases target) auto
  with rest x have b: "and_then (add_to_target eng self geounit_ids geolevel ?inc t) (\<lambda>n.
                    and_then (save_plan eng (self\<lparr>plan.version := plan.version self + 1\<rparr>)) (\<lambda>self' s'.
                      (Inr (f + n, self'), s'))) s1 = (Inr (fixed, self'), s')" by simp
  from and_then_Inr[OF b] obtain n s2 where
    tgt: "add_to_target eng self geounit_ids geolevel ?inc t s1 = (Inr n, s2)"
    and c: "and_then (save_plan eng (self\<lparr>plan.version := plan.version self + 1\<rparr>)) (\<lambda>self' s'.
                      (Inr (f + n, self'), s')) s2 = (Inr (fixed, self'), s')" by blast
  from and_then_Inr[OF c] have fixed: "fixed = f + n" by auto
  from loop x t have l: "add_geounits_loop eng self districtid geounit_ids geolevel ?inc ?ds None 0 s = (Inr (Some t, f), s1)"
    by simp
  from add_geounits_loop_target_id[OF l] have tin: "t \<in> set ?ds" and tid: "int (district_id t) = districtid"
    by auto
  have dist: "distinct (map district_id ?ds)"
    using get_districts_at_version_latest[of s self v] by blast
  have sub: "set ?ds \<subseteq> set (districts s)"
    by (auto dest: get_districts_at_version_subset district_set_plan)
  from add_geounits_loop_count[OF l dist sub]
  have f: "f = length (filter (counted eng s geounit_ids geolevel ?inc)
                         (filter (\<lambda>d. int (district_id d) \<noteq> districtid) ?ds))" by simp
  from add_geounits_loop_edit_step[OF l]
  have "target_counted eng s1 geounit_ids geolevel ?inc t = target_counted eng s geounit_ids geolevel ?inc t"
    by (rule target_counted_kept)
  with add_to_target_count[OF tgt]
  have n: "n = (if target_counted eng s geounit_ids geolevel ?inc t then 1 else 0)" by simp
  from tin tid fixed f n show ?thesis by blast
qed


theorem add_geounits_count_witness:
  "add_geounits example_engine plan0 2 [1, 2] 2 0 edit_db0 = (Inr (2, plan1), edit_db1)
   \<and> (\<exists>t\<in>set (get_districts_at_version edit_db0 plan0 0).
         int (district_id t) = 2
         \<and> (2::nat) = length (filter (counted example_engine edit_db0 [1, 2] 2 (unionagg example_engine [1, 2]))
                               (filter (\<lambda>d. int (district_id d) \<noteq> 2)
                                  (get_districts_at_version edit_db0 plan0 0)))
                     + (if target_counted example_engine edit_db0 [1, 2] 2 (unionagg example_engine [1, 2]) t
                        then 1 else 0))"
  using add_geounits_count[OF first_edit] first_edit by simp

text \<open>
  An edit of version 0 that adds block 1 to the district that holds it: district 2 is
  carried forward and the target is copied, both with the geometry and the numbers of
  the snapshots they are copies of, and the edit returns 1.
\<close>

theorem add_geounits_count_counterexample:
  "add_geounits example_engine plan1 1 [1] 2 0 edit_db1 = (Inr (1, plan1\<lparr>plan.version := 2\<rparr>), carried_db)
   \<and> districts carried_db = districts edit_db1 @
        [stored 5 2 ''District 1'' 2 None, stored 6 1 ''Unassigned'' 2 (Some (region [1, 2, 3, 4]))]
   \<and> geom (stored 5 2 ''District 1'' 2 None) = geom (stored 2 2 ''District 1'' 0 None)
   \<and> computed_number carried_db (stored 5 2 ''District 1'' 2 None) 1
       = computed_number edit_db1 (stored 2 2 ''District 1'' 0 None) 1
   \<and> geom (stored 6 1 ''Unassigned'' 2 (Some (region [1, 2, 3, 4])))
       = geom (stored 1 1 ''Unassigned'' 0 (Some (region [1, 2, 3, 4])))
   \<and> computed_number carried_db (stored 6 1 ''Unassigned'' 2 (Some (region [1, 2, 3, 4]))) 1
       = computed_number edit_db1 (stored 1 1 ''Unassigned'' 0 (Some (region [1, 2, 3, 4]))) 1"
proof -
  have run: "add_geounits example_engine plan1 1 [1] 2 0 edit_db1 = (Inr (1, plan1\<lparr>plan.version := 2\<rparr>), carried_db)"
    unfolding add_geounits_def edit_db1_at_0 by code_simp
  have rest: "districts carried_db = districts edit_db1 @
        [stored 5 2 ''District 1'' 2 None, stored 6 1 ''Unassigned'' 2 (Some (region [1, 2, 3, 4]))]
   \<and> geom (stored 5 2 ''District 1'' 2 None) = geom (stored 2 2 ''District 1'' 0 None)
   \<and> computed_number carried_db (stored 5 2 ''District 1'' 2 None) 1
       = computed_number edit_db1 (stored 2 2 ''District 1'' 0 None) 1
   \<and> geom (stored 6 1 ''Unassigned'' 2 (Some (region [1, 2, 3, 4])))
       = geom (stored 1 1 ''Unassigned'' 0 (Some (region [1, 2, 3, 4])))
   \<and> computed_number carried_db (stored 6 1 ''Unassigned'' 2 (Some (region [1, 2, 3, 4]))) 1
       = computed_number edit_db1 (stored 1 1 ''Unassigned'' 0 (Some (region [1, 2, 3, 4]))) 1"
    by (simp add: carried_db_def edit_db1_def stored_def total_def computed_number_def)
  from run rest show ?thesis by simp
qed

subsection \<open>Failures of the geometry engine\<close>

lemma recovered_result:
  "recovered (call op (Some a) (Some b)) (Some c) =
     (case op a b of None \<Rightarrow> Inr (empty_geom (srid c)) | Some r \<Rightarrow> Inr r)"
  by (simp add: recovered_def call_def srid_of_def on_success_def split: option.splits)

lemma truthy_empty_geom: "\<not> truthy (empty_geom s)" "empty (empty_geom s)"
  "geom_type (empty_geom s) = ''GeometryCollection''"
  by (simp_all add: truthy_def empty_def empty_geom_def geom_type_def)

lemma remainder_of_inside:
  "remainder_of eng True (Some b) sel (Some i) =
     (case intersection eng b i of None \<Rightarrow> Inr (empty_geom (srid b)) | Some r \<Rightarrow> Inr r)"
  by (simp add: remainder_of_def recovered_result)

lemma remainder_of_outside:
  "remainder_of eng False (Some b) (Some sel) (Some i) =
     (case difference eng sel b of
        None \<Rightarrow> Inr (empty_geom (srid b))
      | Some r \<Rightarrow> (case intersection eng r i of None \<Rightarrow> Inr (empty_geom (srid b)) | Some x \<Rightarrow> Inr x))"
  by (simp add: remainder_of_def recovered_def call_def srid_of_def on_success_def split: option.splits)

lemma munge_empty_geom:
  "munge_remainder (empty_geom s) (Some b) = Inr (empty_geom (srid b))"
  by (simp add: munge_remainder_def truthy_empty_geom srid_of_def on_success_def)

lemma cut_district_result:
  assumes "geom d = Some g"
  shows "cut_district eng d (Some inc) =
           (case difference eng g inc of
              None \<Rightarrow> Inr (d\<lparr>geom := None, simple := None\<rparr>)
            | Some r \<Rightarrow>
                (case enforce_multi (Some r) of
                   None \<Rightarrow> Inl AttributeError
                 | Some g' \<Rightarrow>
                     if \<not> empty g'
                     then Inr (d\<lparr>geom := Some g', simple := enforce_multi (Some (simplify eng g'))\<rparr>)
                     else Inr (d\<lparr>geom := None, simple := None\<rparr>)))"
proof (cases "difference eng g inc")
  case None
  then have "recovered (call (difference eng) (geom d) (Some inc)) (Some inc) = Inr (empty_geom (srid inc))"
    using assms by (simp add: recovered_result)
  moreover have "enforce_multi (Some (empty_geom (srid inc))) = Some (empty_geom (srid inc))"
    by (simp add: enforce_multi_def truthy_empty_geom)
  ultimately show ?thesis using None
    by (simp add: cut_district_def on_success_def truthy_empty_geom)
next
  case (Some r)
  then have "recovered (call (difference eng) (geom d) (Some inc)) (Some inc) = Inr r"
    using assms by (simp add: recovered_result)
  with Some show ?thesis by (simp add: cut_district_def on_success_def)
qed

lemma enforce_multi_Some: "enforce_multi (Some g) \<noteq> None"
  by (simp add: enforce_multi_def)

lemma grow_target_result:
  assumes "geom t = Some g"
  shows "grow_target eng t (Some inc) =
           (case union eng g inc of
              None \<Rightarrow> Inr (t\<lparr>geom := None, simple := None\<rparr>)
            | Some u \<Rightarrow>
                Inr (t\<lparr>geom := enforce_multi (Some u),
                       simple := (case enforce_multi (Some u) of
                                    None \<Rightarrow> None
                                  | Some x \<Rightarrow> if truthy x then enforce_multi (Some (simplify eng x)) else None)\<rparr>))"
  using assms by (simp add: grow_target_def call_def on_success_def split: option.splits)

text \<open>
  Claim C6, as the code has it, for the operations that stand inside a \<^verbatim>\<open>try\<close> block.
  In the containment search, with a boundary, a selection and the geometry
  \<open>intersects\<close> at hand, the computation of the remainder never raises: a failure of
  \<^verbatim>\<open>boundary.intersection(intersects)\<close>, of \<^verbatim>\<open>selection.difference(boundary)\<close> or of the
  intersection that follows it yields the canonical empty geometry with the spatial
  reference of the boundary, which the conversion of the remainder leaves as it is. In
  the edit, for a district with a geometry, the cut of a touched district never raises:
  a failure of \<^verbatim>\<open>district.geom.difference(incremental)\<close> yields the canonical empty geometry
  with the spatial reference of \<open>incremental\<close>, and the district is stored without
  geometry. The new geometry of the target never raises either: a failure of
  \<^verbatim>\<open>target.geom.union(incremental)\<close> leaves the target with no geometry at all.
\<close>

theorem guarded_operations_recover:
  "(\<exists>r. remainder_of eng inside (Some boundary) (Some selection) (Some intersects) = Inr r)
   \<and> (intersection eng boundary intersects = None \<longrightarrow>
        remainder_of eng True (Some boundary) (Some selection) (Some intersects)
          = Inr (empty_geom (srid boundary)))
   \<and> (difference eng selection boundary = None \<longrightarrow>
        remainder_of eng False (Some boundary) (Some selection) (Some intersects)
          = Inr (empty_geom (srid boundary)))
   \<and> (difference eng selection boundary = Some x \<and> intersection eng x intersects = None \<longrightarrow>
        remainder_of eng False (Some boundary) (Some selection) (Some intersects)
          = Inr (empty_geom (srid boundary)))
   \<and> munge_remainder (empty_geom (srid boundary)) (Some boundary) = Inr (empty_geom (srid boundary))
   \<and> (geom d = Some g \<longrightarrow>
        (\<exists>d'. cut_district eng d (Some incremental) = Inr d')
        \<and> (difference eng g incremental = None \<longrightarrow>
             recovered (call (difference eng) (geom d) (Some incremental)) (Some incremental)
               = Inr (empty_geom (srid incremental))
             \<and> cut_district eng d (Some incremental) = Inr (d\<lparr>geom := None, simple := None\<rparr>)))
   \<and> (geom d = Some g \<longrightarrow>
        (\<exists>d'. grow_target eng d (Some incremental) = Inr d')
        \<and> (union eng g incremental = None \<longrightarrow>
             grow_target eng d (Some incremental) = Inr (d\<lparr>geom := None, simple := None\<rparr>)))"
proof (intro conjI impI)
  show "\<exists>r. remainder_of eng inside (Some boundary) (Some selection) (Some intersects) = Inr r"
    by (cases inside) (auto simp: remainder_of_inside remainder_of_outside split: option.splits)
next
  assume "intersection eng boundary intersects = None"
  then show "remainder_of eng True (Some boundary) (Some selection) (Some intersects)
          = Inr (empty_geom (srid boundary))" by (simp add: remainder_of_inside)
next
  assume "difference eng selection boundary = None"
  then show "remainder_of eng False (Some boundary) (Some selection) (Some intersects)
          = Inr (empty_geom (srid boundary))" by (simp add: remainder_of_outside)
next
  assume "difference eng selection boundary = Some x \<and> intersection eng x intersects = None"
  then show "remainder_of eng False (Some boundary) (Some selection) (Some intersects)
          = Inr (empty_geom (srid boundary))" by (simp add: remainder_of_outside)
next
  show "munge_remainder (empty_geom (srid boundary)) (Some boundary) = Inr (empty_geom (srid boundary))"
    by (rule munge_empty_geom)
next
  assume g: "geom d = Some g"
  show "\<exists>d'. cut_district eng d (Some incremental) = Inr d'"
    by (auto simp: cut_district_result[OF g] enforce_multi_Some split: option.splits)
next
  assume g: "geom d = Some g" and f: "difference eng g incremental = None"
  from g f show "recovered (call (difference eng) (geom d) (Some incremental)) (Some incremental)
               = Inr (empty_geom (srid incremental))" by (simp add: recovered_result)
  from f show "cut_district eng d (Some incremental) = Inr (d\<lparr>geom := None, simple := None\<rparr>)"
    by (simp add: cut_district_result[OF g])
next
  assume g: "geom d = Some g"
  show "\<exists>d'. grow_target eng d (Some incremental) = Inr d'"
    by (simp add: grow_target_result[OF g] split: option.splits)
next
  assume g: "geom d = Some g" and f: "union eng g incremental = None"
  from f show "grow_target eng d (Some incremental) = Inr (d\<lparr>geom := None, simple := None\<rparr>)"
    by (simp add: grow_target_result[OF g])
qed


theorem guarded_operations_recover_witness:
  "remainder_of failing_engine True (Some (region [1, 2])) (Some (region [1])) (Some (region [1]))
     = Inr (empty_geom (Some 3785))
   \<and> remainder_of failing_engine False (Some (region [1, 2])) (Some (region [1])) (Some (region [1]))
     = Inr (empty_geom (Some 3785))
   \<and> remainder_of failing_intersection_engine False (Some (region [2])) (Some (region [1, 2])) (Some (region [1]))
     = Inr (empty_geom (Some 3785))
   \<and> cut_district failing_engine (stored 4 2 ''District 1'' 1 (Some (region [1, 2]))) (Some (region [3]))
     = Inr (stored 4 2 ''District 1'' 1 None)
   \<and> grow_target failing_engine (stored 4 2 ''District 1'' 1 (Some (region [1, 2]))) (Some (region [3]))
     = Inr (stored 4 2 ''District 1'' 1 None)"
proof -
  note main = guarded_operations_recover
  have i: "intersection failing_engine (region [1, 2]) (region [1]) = None"
    and d: "difference failing_engine (region [1]) (region [1, 2]) = None"
    by (simp_all add: failing_engine_def)
  from main[of failing_engine _ "region [1, 2]" "region [1]" "region [1]"] i d
  have 1: "remainder_of failing_engine True (Some (region [1, 2])) (Some (region [1])) (Some (region [1]))
             = Inr (empty_geom (srid (region [1, 2])))"
    and 2: "remainder_of failing_engine False (Some (region [1, 2])) (Some (region [1])) (Some (region [1]))
             = Inr (empty_geom (srid (region [1, 2])))"
    by blast+
  have d': "difference failing_intersection_engine (region [1, 2]) (region [2]) = Some (region [1])
            \<and> intersection failing_intersection_engine (region [1]) (region [1]) = None"
    by (simp add: failing_intersection_engine_def example_engine_def cells_def region_def cell_def)
  from main[of failing_intersection_engine _ "region [2]" "region [1, 2]" "region [1]" "region [1]"] d'
  have 3: "remainder_of failing_intersection_engine False (Some (region [2])) (Some (region [1, 2])) (Some (region [1]))
             = Inr (empty_geom (srid (region [2])))"
    by blast
  have g: "geom (stored 4 2 ''District 1'' 1 (Some (region [1, 2]))) = Some (region [1, 2])"
    by (simp add: stored_def)
  have f: "difference failing_engine (region [1, 2]) (region [3]) = None"
    "union failing_engine (region [1, 2]) (region [3]) = None"
    by (simp_all add: failing_engine_def)
  from main[of failing_engine _ _ _ _ _ "stored 4 2 ''District 1'' 1 (Some (region [1, 2]))" "region [1, 2]" "region [3]"] g f
  have 4: "cut_district failing_engine (stored 4 2 ''District 1'' 1 (Some (region [1, 2]))) (Some (region [3]))
             = Inr ((stored 4 2 ''District 1'' 1 (Some (region [1, 2])))\<lparr>geom := None, simple := None\<rparr>)"
    and 5: "grow_target failing_engine (stored 4 2 ''District 1'' 1 (Some (region [1, 2]))) (Some (region [3]))
             = Inr ((stored 4 2 ''District 1'' 1 (Some (region [1, 2])))\<lparr>geom := None, simple := None\<rparr>)"
    by blast+
  from 1 2 3 4 5 show ?thesis by (simp add: region_def stored_def)
qed

text \<open>
  With an engine whose union fails: the target is left with the geometry \<^verbatim>\<open>None\<close>, not
  with the canonical empty geometry; and the union of two selected counties in the
  search, which stands outside of the \<^verbatim>\<open>try\<close> blocks, raises out of
  \<^verbatim>\<open>get_mixed_geounits\<close> and out of \<^verbatim>\<open>add_geounits\<close>.
\<close>

theorem guarded_operations_counterexample:
  "grow_target failing_union_engine (stored 4 2 ''District 1'' 1 (Some (region [1, 2]))) (Some (region [3]))
     = Inr (stored 4 2 ''District 1'' 1 None)
   \<and> geom (stored 4 2 ''District 1'' 1 None) = None
   \<and> get_mixed_geounits failing_union_engine [11, 12] 1 (Some (region [1, 2, 3, 4])) True
       = Inl GEOSException
   \<and> add_geounits failing_union_engine plan0 2 [11, 12] 1 0 edit_db0 = (Inl GEOSException, edit_db0)"
proof -
  have 1: "grow_target failing_union_engine (stored 4 2 ''District 1'' 1 (Some (region [1, 2]))) (Some (region [3]))
     = Inr (stored 4 2 ''District 1'' 1 None)" by code_simp
  have 2: "geom (stored 4 2 ''District 1'' 1 None) = None" by (simp add: stored_def)
  have 3: "get_mixed_geounits failing_union_engine [11, 12] 1 (Some (region [1, 2, 3, 4])) True
       = Inl GEOSException" by code_simp
  have 4: "add_geounits failing_union_engine plan0 2 [11, 12] 1 0 edit_db0 = (Inl GEOSException, edit_db0)"
    unfolding add_geounits_def edit_db0_at_0 by code_simp
  from 1 2 3 4 show ?thesis by simp
qed

subsection \<open>The statistics follow the geounits\<close>




























































end
